theory Spec2Isabelle
  imports Main "HOL-Library.Sublist"
begin

section \<open>JavaScript strings\<close>

text \<open>
  A JavaScript string is modelled as a \<^typ>\<open>string\<close>, a list of characters whose
  codes lie below 256. The DNS names, record data and error messages that the two engines
  handle are of that kind. \<open>s.length\<close> is \<^term>\<open>length s\<close>.
\<close>

text \<open>\<open>s.includes(t)\<close>: \<open>t\<close> occurs in \<open>s\<close> as a contiguous run.\<close>

definition str_includes :: "string \<Rightarrow> string \<Rightarrow> bool" where
  "str_includes s t = sublist t s"

text \<open>
  \<open>s.split(c)\<close> for a one-character separator: the pieces between the occurrences
  of \<open>c\<close>, empty pieces kept; the empty string splits into one empty piece.
\<close>

fun split_on :: "char \<Rightarrow> string \<Rightarrow> string list" where
  "split_on c [] = [[]]"
| "split_on c (x # xs) =
     (if x = c then [] # split_on c xs
      else (case split_on c xs of
              [] \<Rightarrow> [[x]]
            | piece # pieces \<Rightarrow> (x # piece) # pieces))"

text \<open>
  \<open>s.toLowerCase()\<close> on codes below 256: the letters \<open>A\<close> to \<open>Z\<close> and the
  capital letters of Latin-1 (192 to 222, the multiplication sign 215 apart) move up by 32.
\<close>

definition lower_char :: "char \<Rightarrow> char" where
  "lower_char c =
     (let n = (of_char c :: nat)
      in if (65 \<le> n \<and> n \<le> 90) \<or> (192 \<le> n \<and> n \<le> 222 \<and> n \<noteq> 215)
         then char_of (n + 32) else c)"

definition toLowerCase :: "string \<Rightarrow> string" where
  "toLowerCase s = map lower_char s"

section \<open>Domain validator\<close>

text \<open>The character classes \<open>[a-zA-Z0-9]\<close> and \<open>[a-zA-Z0-9-]\<close> of \<open>domainRegex\<close>.\<close>

definition alnum :: "char \<Rightarrow> bool" where
  "alnum c =
     (let n = (of_char c :: nat)
      in (97 \<le> n \<and> n \<le> 122) \<or> (65 \<le> n \<and> n \<le> 90) \<or> (48 \<le> n \<and> n \<le> 57))"

definition alnum_hyphen :: "char \<Rightarrow> bool" where
  "alnum_hyphen c = (alnum c \<or> c = CHR ''-'')"

text \<open>
  The regular expressions that \<open>domainRegex\<close> is built from: a character class, one
  expression after another, \<open>(...)?\<close>, \<open>(...){0,n}\<close> and \<open>(...)*\<close>; and the set of
  strings each matches in full. The pattern has neither back-references nor look-around and
  is anchored at both ends, so \<open>test\<close> is true exactly for the strings of that set.
\<close>

datatype rexp =
    Class "char \<Rightarrow> bool"
  | Then rexp rexp
  | Optional rexp
  | Upto nat rexp
  | Many rexp

definition conc :: "string set \<Rightarrow> string set \<Rightarrow> string set" where
  "conc A B = {xs @ ys | xs ys. xs \<in> A \<and> ys \<in> B}"

inductive_set many :: "string set \<Rightarrow> string set" for A :: "string set" where
  many_empty: "[] \<in> many A"
| many_more: "xs \<in> A \<Longrightarrow> ys \<in> many A \<Longrightarrow> xs @ ys \<in> many A"

fun at_most :: "nat \<Rightarrow> string set \<Rightarrow> string set" where
  "at_most 0 A = {[]}"
| "at_most (Suc n) A = {[]} \<union> conc A (at_most n A)"

fun lang :: "rexp \<Rightarrow> string set" where
  "lang (Class P) = {[c] | c. P c}"
| "lang (Then r s) = conc (lang r) (lang s)"
| "lang (Optional r) = {[]} \<union> lang r"
| "lang (Upto n r) = at_most n (lang r)"
| "lang (Many r) = many (lang r)"

text \<open>
  \<open>/^(?:[a-zA-Z0-9](?:[a-zA-Z0-9-]{0,61}[a-zA-Z0-9])?\.)*[a-zA-Z0-9](?:[a-zA-Z0-9-]{0,61}[a-zA-Z0-9])?$/\<close>
\<close>

definition label_rexp :: rexp where
  "label_rexp =
     Then (Class alnum) (Optional (Then (Upto 61 (Class alnum_hyphen)) (Class alnum)))"

definition domainRegex :: rexp where
  "domainRegex = Then (Many (Then label_rexp (Class (\<lambda>c. c = CHR ''.'')))) label_rexp"

text \<open>
  The same, as a test that runs. One label, \<open>[a-zA-Z0-9](?:[a-zA-Z0-9-]{0,61}[a-zA-Z0-9])?\<close>:
  an alphanumeric character, then nothing, or at most 61 characters of the wider class
  and one more alphanumeric character.
\<close>

definition match_label :: "string \<Rightarrow> bool" where
  "match_label l =
     (case l of
        [] \<Rightarrow> False
      | c # rest \<Rightarrow>
          alnum c \<and>
          (rest = [] \<or>
           (length (butlast rest) \<le> 61 \<and> list_all alnum_hyphen (butlast rest) \<and>
            alnum (last rest))))"

text \<open>
  \<open>this.domainRegex.test(s)\<close>. The pattern is \<open>^(?:L\.)*L$\<close> for the label pattern
  \<open>L\<close>, and no label contains a dot, so a string matches exactly when every piece
  between its dots matches \<open>L\<close> (\<open>domainRegex_test_lang\<close> below).
\<close>

definition domainRegex_test :: "string \<Rightarrow> bool" where
  "domainRegex_test s = list_all match_label (split_on CHR ''.'' s)"

text \<open>\<open>domain.replace(/\.$/, '')\<close>: one dot at the very end is removed.\<close>

definition stripTrailingDot :: "string \<Rightarrow> string" where
  "stripTrailingDot s = (if s \<noteq> [] \<and> last s = CHR ''.'' then butlast s else s)"

text \<open>
  \<open>validateDomain\<close>. The argument is a string, so of the first guard
  \<open>!domain || typeof domain !== 'string'\<close> only the empty string is left.
\<close>

definition validateDomain :: "string \<Rightarrow> bool" where
  "validateDomain domain =
     (if domain = [] then False
      else
        let cleanDomain = stripTrailingDot domain in
        if length cleanDomain = 0 \<or> length cleanDomain > 253 then False
        else if list_ex (\<lambda>label. length label = 0 \<or> length label > 63)
                  (split_on CHR ''.'' cleanDomain) then False
        else domainRegex_test cleanDomain)"

section \<open>Data model of the query engine\<close>

text \<open>
  A normalized DNS record \<open>{name, type, ttl, data}\<close>; the TTL is a count of seconds.
\<close>

record DNSRecord =
  name :: string
  rtype :: string
  ttl :: nat
  data :: string

text \<open>
  The result of one query. The optional fields are those the failure entry of
  \<open>queryAllRecords\<close> adds; \<open>authority\<close> and \<open>additional\<close>, which no function
  modelled here reads, are left out.
\<close>

record QueryResult =
  domain :: string
  recordType :: string
  records :: "DNSRecord list"
  timestamp :: string
  source :: string
  error :: "string option"
  originalError :: "string option"
  failedProviders :: "string list option"
  retryable :: "bool option"

text \<open>
  The object that maps a record type name to its result: its keys, which are distinct, in
  insertion order, each with its value.
\<close>

type_synonym RecordSet = "(string \<times> QueryResult) list"

record CacheEntry =
  entry_data :: RecordSet
  expiresAt :: nat
  cachedAt :: nat

text \<open>The fields of a \<open>DNSQueryEngine\<close> that its methods read or write.\<close>

record Engine =
  timeout :: nat
  maxRetries :: nat
  retryDelay :: nat
  cache :: "(string \<times> CacheEntry) list"
  hits :: nat
  misses :: nat
  maxCacheSize :: nat
  defaultCacheTTL :: nat

definition dohProviders :: "(string \<times> string) list" where
  "dohProviders =
     [(''cloudflare'', ''https://cloudflare-dns.com/dns-query''),
      (''google'', ''https://dns.google/dns-query''),
      (''quad9'', ''https://dns.quad9.net/dns-query'')]"

definition fallbackOrder :: "string list" where
  "fallbackOrder = [''cloudflare'', ''google'', ''quad9'']"

definition recordTypes :: "(string \<times> nat) list" where
  "recordTypes =
     [(''A'', 1), (''NS'', 2), (''CNAME'', 5), (''SOA'', 6), (''PTR'', 12),
      (''MX'', 15), (''TXT'', 16), (''AAAA'', 28), (''SRV'', 33)]"

text \<open>The engine as its constructor leaves it.\<close>

definition DNSQueryEngine :: Engine where
  "DNSQueryEngine =
     \<lparr>timeout = 10000, maxRetries = 3, retryDelay = 1000, cache = [],
      hits = 0, misses = 0, maxCacheSize = 50, defaultCacheTTL = 300000\<rparr>"

section \<open>Cache store\<close>

text \<open>
  The cache is a JavaScript \<open>Map\<close>, which keeps its keys in insertion order: a list of
  pairs with distinct keys. \<open>set\<close> on a present key replaces the value where it stands,
  on an absent key it appends; \<open>delete\<close> removes the key; \<open>keys().next().value\<close> is
  the first key.
\<close>

fun map_set :: "'k \<Rightarrow> 'v \<Rightarrow> ('k \<times> 'v) list \<Rightarrow> ('k \<times> 'v) list" where
  "map_set k v [] = [(k, v)]"
| "map_set k v ((k', v') # m) =
     (if k' = k then (k, v) # m else (k', v') # map_set k v m)"

definition map_delete :: "'k \<Rightarrow> ('k \<times> 'v) list \<Rightarrow> ('k \<times> 'v) list" where
  "map_delete k m = filter (\<lambda>kv. fst kv \<noteq> k) m"

text \<open>
  \<open>calculateCacheTTL\<close>: the running minimum starts at the default and takes in every
  record TTL that is truthy (not zero), in milliseconds.
\<close>

definition calculateCacheTTL :: "Engine \<Rightarrow> RecordSet \<Rightarrow> nat" where
  "calculateCacheTTL e dat =
     (let minTTL =
            fold (\<lambda>(recordType, recordData) m.
                    fold (\<lambda>record m. if ttl record \<noteq> 0 then min m (ttl record * 1000) else m)
                      (records recordData) m)
              dat (defaultCacheTTL e)
      in max 30000 (min 600000 minTTL))"

text \<open>
  \<open>getFromCache\<close> at the time \<open>now\<close> that \<open>Date.now()\<close> returns: the data, or
  nothing; an expired entry is deleted.
\<close>

definition getFromCache :: "nat \<Rightarrow> string \<Rightarrow> Engine \<Rightarrow> RecordSet option \<times> Engine" where
  "getFromCache now key e =
     (case map_of (cache e) key of
        None \<Rightarrow> (None, e)
      | Some entry \<Rightarrow>
          if now > expiresAt entry
          then (None, e\<lparr>cache := map_delete key (cache e)\<rparr>)
          else (Some (entry_data entry), e))"

text \<open>
  \<open>setCache\<close> at the time \<open>now\<close>; the optional \<open>ttl\<close> is used when it is given
  and truthy.
\<close>

definition setCache :: "nat \<Rightarrow> string \<Rightarrow> RecordSet \<Rightarrow> nat option \<Rightarrow> Engine \<Rightarrow> Engine" where
  "setCache now key dat ttl_arg e =
     (let cacheTTL =
            (case ttl_arg of
               None \<Rightarrow> calculateCacheTTL e dat
             | Some t \<Rightarrow> if t \<noteq> 0 then t else calculateCacheTTL e dat);
          c = (if length (cache e) \<ge> maxCacheSize e
               then (case cache e of
                       [] \<Rightarrow> []
                     | (firstKey, _) # _ \<Rightarrow> map_delete firstKey (cache e))
               else cache e)
      in e\<lparr>cache :=
             map_set key \<lparr>entry_data = dat, expiresAt = now + cacheTTL, cachedAt = now\<rparr> c\<rparr>)"

definition clearCache :: "Engine \<Rightarrow> Engine" where
  "clearCache e = e\<lparr>cache := [], hits := 0, misses := 0\<rparr>"

text \<open>
  The cache TTL as the specification words it: the minimum of the TTLs of all records of
  the set, the 300 s default when the set has no record, clamped to 30 s and 600 s.
\<close>

definition spec_cacheTTL :: "RecordSet \<Rightarrow> nat" where
  "spec_cacheTTL dat =
     (let ttls = map ttl (concat (map (\<lambda>kv. records (snd kv)) dat))
      in max 30000 (min 600000 (if ttls = [] then 300000 else Min (set ttls) * 1000)))"

text \<open>
  The truthy TTLs of all records of a record set, in milliseconds, and a record set with
  one \<open>A\<close> record of TTL 3600 s.
\<close>

definition record_ttls_ms :: "RecordSet \<Rightarrow> nat list" where
  "record_ttls_ms dat =
     map (\<lambda>t. t * 1000)
       (filter (\<lambda>t. t \<noteq> 0) (map ttl (concat (map (\<lambda>kv. records (snd kv)) dat))))"

definition example_result :: QueryResult where
  "example_result =
     \<lparr>domain = ''example.com'', recordType = ''A'',
      records = [\<lparr>name = ''example.com'', rtype = ''A'', ttl = 3600,
                  data = ''93.184.216.34''\<rparr>],
      timestamp = ''2024-01-01T00:00:00.000Z'', source = ''cloudflare'', error = None,
      originalError = None, failedProviders = None, retryable = None\<rparr>"

definition example_records :: RecordSet where
  "example_records = [(''A'', example_result)]"

text \<open>
  The invariant of the cache: the capacity is 50, the keys are distinct, and there are at
  most 50 of them.
\<close>

definition cache_inv :: "Engine \<Rightarrow> bool" where
  "cache_inv e =
     (maxCacheSize e = 50 \<and> distinct (map fst (cache e)) \<and> length (cache e) \<le> 50)"

text \<open>
  \<open>setCache\<close> for the keys \<open>ks\<close> one after the other, the key \<open>k\<close> at the time
  \<open>tm k\<close> with the data \<open>dat k\<close>; and fifty distinct keys.
\<close>

definition insert_all ::
  "(string \<Rightarrow> nat) \<Rightarrow> (string \<Rightarrow> RecordSet) \<Rightarrow> string list \<Rightarrow> Engine \<Rightarrow> Engine" where
  "insert_all tm dat ks e = fold (\<lambda>k e. setCache (tm k) k (dat k) None e) ks e"

definition fifty_keys :: "string list" where
  "fifty_keys = map (\<lambda>n. replicate (Suc n) CHR ''k'') [0..<50]"

section \<open>Query engine\<close>

text \<open>Decimal digits of a number, as a template literal prints it.\<close>

function show_nat :: "nat \<Rightarrow> string" where
  "show_nat n =
     (if n < 10 then [''0123456789'' ! n]
      else show_nat (n div 10) @ [''0123456789'' ! (n mod 10)])"
  by pat_completeness auto
termination
  by (relation "measure id") auto

declare show_nat.simps [simp del]

text \<open>
  The JSON body of a DoH answer, as far as \<open>parseDoHResponse\<close> reads it into the fields
  kept in \<open>QueryResult\<close>: the DNS status and the answer section, which may be absent.
\<close>

record DoHAnswer =
  answer_name :: string
  answer_type :: nat
  TTL :: nat
  answer_data :: string

record DoHResponse =
  Status :: nat
  Answer :: "DoHAnswer list option"

definition statusMessages :: "(nat \<times> string) list" where
  "statusMessages =
     [(1, ''Format Error''), (2, ''Server Failure''), (3, ''Name Error (NXDOMAIN)''),
      (4, ''Not Implemented''), (5, ''Refused'')]"

text \<open>
  \<open>parseDoHResponse\<close>, with the timestamp \<open>stamp\<close> it takes from the clock. A status
  other than 0 gives a result with no records and the \<open>error\<close> field set; the result is
  returned, not thrown.
\<close>

definition parseDoHResponse ::
  "string \<Rightarrow> DoHResponse \<Rightarrow> string \<Rightarrow> string \<Rightarrow> string \<Rightarrow> QueryResult" where
  "parseDoHResponse stamp response dname recType provider =
     (let result =
            \<lparr>domain = dname, recordType = recType, records = [], timestamp = stamp,
             source = provider, error = None, originalError = None,
             failedProviders = None, retryable = None\<rparr>
      in if Status response \<noteq> 0
         then result\<lparr>error :=
                Some (case map_of statusMessages (Status response) of
                        Some m \<Rightarrow> m
                      | None \<Rightarrow> ''DNS Error (Status: '' @ show_nat (Status response) @ '')'')\<rparr>
         else
           (case Answer response of
              None \<Rightarrow> result
            | Some answer \<Rightarrow>
                result\<lparr>records :=
                  map (\<lambda>record. \<lparr>name = answer_name record, rtype = recType,
                                   ttl = TTL record, data = answer_data record\<rparr>)
                    (filter (\<lambda>record. Some (answer_type record) = map_of recordTypes recType)
                       answer)\<rparr>))"

text \<open>
  What one DoH request can come to, as \<open>performQuery\<close> sees it: a 2xx response, with
  the result that \<open>parseDoHResponse\<close> makes of its body (a DNS status other than 0 is
  such a result too, with its \<open>error\<close> field set); a response that is not ok, with its
  status and status text; the abort of the timeout; a \<open>TypeError\<close> with its message; any
  other exception with its message.
\<close>

datatype fetch_outcome =
    Response_ok QueryResult
  | Response_failed nat string
  | AbortError
  | TypeError string
  | OtherError string

text \<open>
  \<open>performQuery\<close> for one outcome of the request: the result, or the message of the
  error it throws.
\<close>

definition performQuery :: "Engine \<Rightarrow> string \<Rightarrow> fetch_outcome \<Rightarrow> string + QueryResult" where
  "performQuery e provider outcome =
     (case outcome of
        Response_ok result \<Rightarrow> Inr result
      | Response_failed status statusText \<Rightarrow>
          Inl (''DoH API request failed: '' @ show_nat status @ '' '' @ statusText)
      | AbortError \<Rightarrow> Inl (''DNS query timeout after '' @ show_nat (timeout e) @ ''ms'')
      | TypeError m \<Rightarrow>
          if str_includes m ''fetch''
          then Inl (''Network error: Unable to reach '' @ provider @ '' DoH API'')
          else Inl m
      | OtherError m \<Rightarrow> Inl m)"

text \<open>
  A thrown value: an error object with its message, or \<open>null\<close>, which
  \<open>queryWithRetry\<close> throws when its loop never runs.
\<close>

datatype thrown = Error string | Null

text \<open>What a query does on the way: requests and the waits between them.\<close>

datatype event = Attempt string nat | Sleep nat

text \<open>
  The loop of \<open>queryWithRetry\<close> from the attempt \<open>attempt\<close> on; \<open>net n\<close> is the
  outcome of the request of attempt \<open>n\<close>. The result comes with the trace of requests
  and waits.
\<close>

function queryWithRetry_from ::
  "Engine \<Rightarrow> (nat \<Rightarrow> fetch_outcome) \<Rightarrow> string \<Rightarrow> nat \<Rightarrow> thrown
     \<Rightarrow> event list \<times> (thrown + QueryResult)" where
  "queryWithRetry_from e net provider attempt lastError =
     (if attempt \<le> maxRetries e then
        (case performQuery e provider (net attempt) of
           Inr result \<Rightarrow> ([Attempt provider attempt], Inr result)
         | Inl m \<Rightarrow>
             if str_includes m ''Invalid domain'' \<or> str_includes m ''Unsupported'' \<or>
                (str_includes m ''DoH API request failed'' \<and> str_includes m ''4'')
             then ([Attempt provider attempt], Inl (Error m))
             else if attempt = maxRetries e
             then ([Attempt provider attempt], Inl (Error m))
             else
               let delay = retryDelay e * 2 ^ (attempt - 1);
                   rest = queryWithRetry_from e net provider (attempt + 1) (Error m)
               in (Attempt provider attempt # Sleep delay # fst rest, snd rest))
      else ([], Inl lastError))"
  by pat_completeness auto
termination
  by (relation "measure (\<lambda>(e, net, provider, attempt, lastError). maxRetries e + 1 - attempt)")
    auto

declare queryWithRetry_from.simps [simp del]

definition queryWithRetry ::
  "Engine \<Rightarrow> (nat \<Rightarrow> fetch_outcome) \<Rightarrow> string \<Rightarrow> event list \<times> (thrown + QueryResult)" where
  "queryWithRetry e net provider = queryWithRetry_from e net provider 1 Null"

definition providerOrder :: "string \<Rightarrow> string list" where
  "providerOrder preferredProvider =
     preferredProvider # filter (\<lambda>p. p \<noteq> preferredProvider) fallbackOrder"

text \<open>
  The message of the \<open>TypeError\<close> that reading \<open>error.message\<close> of \<open>null\<close> raises
  (the wording is the JavaScript engine's; this is V8's).
\<close>

definition null_message_error :: string where
  "null_message_error = ''Cannot read properties of null (reading 'message')''"

text \<open>
  The provider loop of \<open>queryDNS\<close>; \<open>net provider n\<close> is the outcome of the request
  number \<open>n\<close> to \<open>provider\<close>. The result is the first success, or the message of the
  error thrown.
\<close>

fun tryProviders ::
  "Engine \<Rightarrow> (string \<Rightarrow> nat \<Rightarrow> fetch_outcome) \<Rightarrow> string list \<Rightarrow> thrown
     \<Rightarrow> event list \<times> (string + QueryResult)" where
  "tryProviders e net [] lastError =
     ([], Inl (''All DNS providers failed. Last error: '' @
               (case lastError of
                  Null \<Rightarrow> ''Unknown error''
                | Error m \<Rightarrow> if m = [] then ''Unknown error'' else m)))"
| "tryProviders e net (provider # rest) lastError =
     (if map_of dohProviders provider = None then tryProviders e net rest lastError
      else
        (case queryWithRetry e (net provider) provider of
           (tr, Inr result) \<Rightarrow> (tr, Inr result)
         | (tr, Inl Null) \<Rightarrow> (tr, Inl null_message_error)
         | (tr, Inl (Error m)) \<Rightarrow>
             (let later = tryProviders e net rest (Error m)
              in (tr @ fst later, snd later))))"

declare tryProviders.simps [simp del]

text \<open>
  \<open>queryDNS\<close>. Every code of \<open>recordTypes\<close> is truthy, so a record type is
  unsupported when it is no key of the table. (The names that every JavaScript object
  inherits, such as \<open>constructor\<close>, are left aside, here and for \<open>dohProviders\<close>.)
\<close>

definition queryDNS ::
  "Engine \<Rightarrow> (string \<Rightarrow> nat \<Rightarrow> fetch_outcome) \<Rightarrow> string \<Rightarrow> string \<Rightarrow> string
     \<Rightarrow> event list \<times> (string + QueryResult)" where
  "queryDNS e net dname recType preferredProvider =
     (if \<not> validateDomain dname then ([], Inl (''Invalid domain name: '' @ dname))
      else if map_of recordTypes recType = None
      then ([], Inl (''Unsupported DNS record type: '' @ recType))
      else tryProviders e net (providerOrder preferredProvider) Null)"

definition categorizeError :: "string \<Rightarrow> string" where
  "categorizeError errorMessage =
     (if str_includes errorMessage ''timeout''
      then ''Request timed out - DNS server may be slow or unreachable''
      else if str_includes errorMessage ''Network error''
      then ''Network connection failed - check your internet connection''
      else if str_includes errorMessage ''Name Error'' \<or> str_includes errorMessage ''NXDOMAIN''
      then ''Domain not found - verify the domain name is correct''
      else if str_includes errorMessage ''Server Failure''
      then ''DNS server error - the authoritative server is having issues''
      else if str_includes errorMessage ''Refused''
      then ''DNS query refused - the server declined to answer''
      else if str_includes errorMessage ''All DNS providers failed''
      then ''All DNS providers unavailable - try again later''
      else errorMessage)"

definition isRetryableError :: "string \<Rightarrow> bool" where
  "isRetryableError errorMessage =
     list_ex (\<lambda>err. str_includes errorMessage err)
       [''timeout'', ''Network error'', ''Server Failure'', ''All DNS providers failed'']"

text \<open>The slices \<open>recordTypes.slice(i, i + batchSize)\<close> for \<open>i = 0, 3, 6, ...\<close>.\<close>

definition batchSize :: nat where
  "batchSize = 3"

function batches :: "'a list \<Rightarrow> 'a list list" where
  "batches xs = (if xs = [] then [] else take batchSize xs # batches (drop batchSize xs))"
  by pat_completeness auto
termination
  by (relation "measure length") (auto simp: batchSize_def)

declare batches.simps [simp del]

text \<open>
  The entry that \<open>queryAllRecords\<close> stores for a record type whose \<open>queryDNS\<close> threw
  an error with the message \<open>m\<close>.
\<close>

definition failed_result :: "string \<Rightarrow> string \<Rightarrow> string \<Rightarrow> string \<Rightarrow> QueryResult" where
  "failed_result dname recType stamp m =
     \<lparr>domain = dname, recordType = recType, records = [], timestamp = stamp,
      source = ''failed'', error = Some (categorizeError m), originalError = Some m,
      failedProviders = Some fallbackOrder, retryable = Some (isRetryableError m)\<rparr>"

text \<open>
  \<open>queryAllRecords\<close>. \<open>now\<close> is the time of the cache lookup and \<open>now'\<close> that of the
  store after the queries, \<open>stamp t\<close> the timestamp given to a failure entry of type
  \<open>t\<close>, \<open>net t provider n\<close> the outcome of the request number \<open>n\<close> to \<open>provider\<close>
  for the type \<open>t\<close>. The three queries of a batch wait for the network together, and
  each writes only its own entry, so their order within the batch is that of
  \<open>Promise.all\<close>. The value returned is the error message, or the record set with the
  \<open>fromCache\<close> mark.
\<close>

definition queryAllRecords ::
  "nat \<Rightarrow> nat \<Rightarrow> (string \<Rightarrow> string) \<Rightarrow> (string \<Rightarrow> string \<Rightarrow> nat \<Rightarrow> fetch_outcome)
     \<Rightarrow> string \<Rightarrow> string \<Rightarrow> Engine \<Rightarrow> (string + RecordSet \<times> bool) \<times> Engine" where
  "queryAllRecords now now' stamp net dname preferredProvider e =
     (if \<not> validateDomain dname then (Inl (''Invalid domain name: '' @ dname), e)
      else
        let cacheKey = toLowerCase dname @ '':ALL'';
            (cached, e1) = getFromCache now cacheKey e
        in case cached of
             Some c \<Rightarrow> (Inr (c, True), e1\<lparr>hits := hits e1 + 1\<rparr>)
           | None \<Rightarrow>
               let e2 = e1\<lparr>misses := misses e1 + 1\<rparr>;
                   types = map fst recordTypes;
                   batchResponses =
                     map (map (\<lambda>recType.
                            case snd (queryDNS e2 (net recType) dname recType preferredProvider) of
                              Inr result \<Rightarrow> (recType, result, True)
                            | Inl m \<Rightarrow> (recType, failed_result dname recType (stamp recType) m, False)))
                       (batches types);
                   responses = concat batchResponses;
                   hasAnySuccess = list_ex (\<lambda>(recType, result, success). success) responses;
                   totalFailures = length (filter (\<lambda>(recType, result, success). \<not> success) responses);
                   results = fold (\<lambda>(recType, result, success) rs. map_set recType result rs)
                               responses []
               in if \<not> hasAnySuccess \<and> totalFailures = length types
                  then (Inl (''Failed to retrieve any DNS records for '' @ dname @ ''. All '' @
                             show_nat totalFailures @ '' record type queries failed.''), e2)
                  else (Inr (results, False),
                        if hasAnySuccess then setCache now' cacheKey results None e2 else e2))"

definition setTimeout :: "nat \<Rightarrow> Engine \<Rightarrow> string + Engine" where
  "setTimeout timeoutMs e =
     (if timeoutMs < 1000 \<or> timeoutMs > 30000
      then Inl ''Timeout must be between 1000ms and 30000ms''
      else Inr (e\<lparr>timeout := timeoutMs\<rparr>))"

definition setMaxRetries :: "nat \<Rightarrow> Engine \<Rightarrow> string + Engine" where
  "setMaxRetries n e =
     (if n > 10 then Inl ''Max retries must be between 0 and 10''
      else Inr (e\<lparr>maxRetries := n\<rparr>))"

text \<open>
  The engines that a program can hold: the constructor's, and what the methods that
  write to the engine make of one.
\<close>

inductive reachable :: "Engine \<Rightarrow> bool" where
  reachable_new: "reachable DNSQueryEngine"
| reachable_setCache: "reachable e \<Longrightarrow> reachable (setCache now key dat ttl_arg e)"
| reachable_getFromCache: "reachable e \<Longrightarrow> reachable (snd (getFromCache now key e))"
| reachable_clearCache: "reachable e \<Longrightarrow> reachable (clearCache e)"
| reachable_queryAllRecords:
    "reachable e \<Longrightarrow>
     reachable (snd (queryAllRecords now now' stamp net dname preferredProvider e))"
| reachable_setTimeout: "reachable e \<Longrightarrow> setTimeout timeoutMs e = Inr e' \<Longrightarrow> reachable e'"
| reachable_setMaxRetries: "reachable e \<Longrightarrow> setMaxRetries n e = Inr e' \<Longrightarrow> reachable e'"

text \<open>
  The providers of the requests of a trace, in order, and the same with each run of
  requests to one provider counted once: the providers in the order they were tried.
\<close>

definition providers_of :: "event list \<Rightarrow> string list" where
  "providers_of tr =
     concat (map (\<lambda>ev. case ev of Attempt p n \<Rightarrow> [p] | Sleep d \<Rightarrow> []) tr)"

definition attempted :: "event list \<Rightarrow> string list" where
  "attempted tr = remdups_adj (providers_of tr)"

text \<open>
  The entry of \<open>queryAllRecords\<close> for one record type: the result of its \<open>queryDNS\<close>,
  or the failure entry made from the message of the error.
\<close>

definition type_entry ::
  "Engine \<Rightarrow> (string \<Rightarrow> string) \<Rightarrow> (string \<Rightarrow> string \<Rightarrow> nat \<Rightarrow> fetch_outcome)
     \<Rightarrow> string \<Rightarrow> string \<Rightarrow> string \<Rightarrow> QueryResult" where
  "type_entry e stamp net dname preferredProvider recType =
     (case snd (queryDNS e (net recType) dname recType preferredProvider) of
        Inr result \<Rightarrow> result
      | Inl m \<Rightarrow> failed_result dname recType (stamp recType) m)"


definition example_all_net :: "string \<Rightarrow> string \<Rightarrow> nat \<Rightarrow> fetch_outcome" where
  "example_all_net recType provider n =
     (if recType = ''A'' then Response_ok example_result else AbortError)"

text \<open>
  A network where every request is answered with HTTP 200 and a body of DNS status 3
  (\<open>NXDOMAIN\<close>), as the providers answer for a name that does not exist; and the result
  that cloudflare's answer for a record type parses to.
\<close>

definition nxdomain_net :: "string \<Rightarrow> string \<Rightarrow> nat \<Rightarrow> fetch_outcome" where
  "nxdomain_net recType provider n =
     Response_ok
       (parseDoHResponse ''2024-01-01T00:00:00.000Z'' \<lparr>Status = 3, Answer = None\<rparr>
          ''no-such-domain.example'' recType provider)"

definition nxdomain_result :: "string \<Rightarrow> QueryResult" where
  "nxdomain_result recType =
     \<lparr>domain = ''no-such-domain.example'', recordType = recType, records = [],
      timestamp = ''2024-01-01T00:00:00.000Z'', source = ''cloudflare'',
      error = Some ''Name Error (NXDOMAIN)'', originalError = None,
      failedProviders = None, retryable = None\<rparr>"

section \<open>Error detection engine: data model\<close>

datatype errorType =
    MISSING_RECORD | INVALID_TTL | CIRCULAR_CNAME | INVALID_MX | MISSING_SECURITY
  | PROPAGATION_ISSUE | CONFIGURATION_ERROR

datatype severityLevel = CRITICAL | WARNING | INFO

text \<open>
  An issue. Of the fields of the source's issue objects the record keeps the type, the
  severity, the message, the affected record types and the record name (where the source
  sets one); the constant prose of \<open>description\<close> and \<open>recommendation\<close> and the other
  fields that only some issues carry are left out.
\<close>

record Issue =
  itype :: errorType
  severity :: severityLevel
  message :: string
  affectedRecords :: "string list"
  recordName :: "string option"

text \<open>
  \<open>dnsRecords.T && dnsRecords.T.records && dnsRecords.T.records.length > 0\<close>, and the
  records of a type, none when the guard fails.
\<close>

definition has_records :: "RecordSet \<Rightarrow> string \<Rightarrow> bool" where
  "has_records dnsRecords t =
     (case map_of dnsRecords t of None \<Rightarrow> False | Some q \<Rightarrow> records q \<noteq> [])"

definition records_of :: "RecordSet \<Rightarrow> string \<Rightarrow> DNSRecord list" where
  "records_of dnsRecords t =
     (case map_of dnsRecords t of None \<Rightarrow> [] | Some q \<Rightarrow> records q)"

section \<open>Missing records and TTL bounds\<close>

definition detectMissingRecords :: "RecordSet \<Rightarrow> string \<Rightarrow> Issue list" where
  "detectMissingRecords dnsRecords dname =
     (let hasA = has_records dnsRecords ''A'';
          hasAAAA = has_records dnsRecords ''AAAA'';
          errors1 =
            (if \<not> hasA \<and> \<not> hasAAAA
             then [\<lparr>itype = MISSING_RECORD, severity = CRITICAL,
                    message = ''No A or AAAA records found'',
                    affectedRecords = [''A'', ''AAAA''], recordName = None\<rparr>]
             else []);
          warnings1 =
            (if \<not> hasA \<and> \<not> hasAAAA then []
             else if \<not> hasA
             then [\<lparr>itype = MISSING_RECORD, severity = WARNING,
                    message = ''No A records found'',
                    affectedRecords = [''A''], recordName = None\<rparr>]
             else if \<not> hasAAAA
             then [\<lparr>itype = MISSING_RECORD, severity = INFO,
                    message = ''No AAAA records found'',
                    affectedRecords = [''AAAA''], recordName = None\<rparr>]
             else []);
          hasMX = has_records dnsRecords ''MX'';
          warnings2 =
            warnings1 @
            (if \<not> hasMX
             then [\<lparr>itype = MISSING_RECORD, severity = WARNING,
                    message = ''No MX records found'',
                    affectedRecords = [''MX''], recordName = None\<rparr>]
             else []);
          hasNS = has_records dnsRecords ''NS'';
          errors2 =
            errors1 @
            (if \<not> hasNS
             then [\<lparr>itype = MISSING_RECORD, severity = CRITICAL,
                    message = ''No NS records found'',
                    affectedRecords = [''NS''], recordName = None\<rparr>]
             else [])
      in errors2 @ warnings2)"

definition VERY_LOW :: nat where "VERY_LOW = 60"
definition MIN_RECOMMENDED :: nat where "MIN_RECOMMENDED = 300"
definition VERY_HIGH :: nat where "VERY_HIGH = 604800"

text \<open>The issues that \<open>analyzeTTL\<close> pushes for one record of the type \<open>recType\<close>.\<close>

definition ttl_issues :: "string \<Rightarrow> DNSRecord \<Rightarrow> Issue list" where
  "ttl_issues recType record =
     (let t = ttl record
      in (if t < VERY_LOW
          then [\<lparr>itype = INVALID_TTL, severity = WARNING,
                 message = ''Very low TTL value ('' @ show_nat t @ ''s) for '' @ recType @
                           '' record'',
                 affectedRecords = [recType], recordName = Some (name record)\<rparr>]
          else if t < MIN_RECOMMENDED
          then [\<lparr>itype = INVALID_TTL, severity = INFO,
                 message = ''Low TTL value ('' @ show_nat t @ ''s) for '' @ recType @
                           '' record'',
                 affectedRecords = [recType], recordName = Some (name record)\<rparr>]
          else []) @
         (if t > VERY_HIGH
          then [\<lparr>itype = INVALID_TTL, severity = INFO,
                 message = ''Very high TTL value ('' @ show_nat t @ ''s) for '' @ recType @
                           '' record'',
                 affectedRecords = [recType], recordName = Some (name record)\<rparr>]
          else []))"

text \<open>
  \<open>analyzeTTL\<close>: the entries of the record set in order, and for each its records in
  order; an entry without records adds nothing.
\<close>

definition analyzeTTL :: "RecordSet \<Rightarrow> Issue list" where
  "analyzeTTL dnsRecords =
     concat (map (\<lambda>(recType, recordData).
                    concat (map (ttl_issues recType) (records recordData)))
               dnsRecords)"

section \<open>CNAME cycle detection\<close>

definition self_reference_issue :: "string \<Rightarrow> Issue" where
  "self_reference_issue recName =
     \<lparr>itype = CIRCULAR_CNAME, severity = CRITICAL,
      message = ''CNAME record points to itself: '' @ recName,
      affectedRecords = [''CNAME''], recordName = Some recName\<rparr>"

definition circular_chain_issue :: "string \<Rightarrow> Issue" where
  "circular_chain_issue recName =
     \<lparr>itype = CIRCULAR_CNAME, severity = CRITICAL,
      message = ''Circular CNAME reference detected in chain starting from '' @ recName,
      affectedRecords = [''CNAME''], recordName = Some recName\<rparr>"

text \<open>
  \<open>records.find(record => record.name.toLowerCase() === currentTarget)\<close>: the first
  record of that name.
\<close>

definition find_cname :: "DNSRecord list \<Rightarrow> string \<Rightarrow> DNSRecord option" where
  "find_cname recs currentTarget = find (\<lambda>record. toLowerCase (name record) = currentTarget) recs"

text \<open>
  The loop \<open>for (let depth = 0; depth < 10; depth++)\<close>, from \<open>depth\<close> on. The set
  \<open>cnameChain\<close> is the list of its members in insertion order; a target is added only
  after the test that it is no member.
\<close>

function follow_chain ::
  "DNSRecord list \<Rightarrow> string \<Rightarrow> nat \<Rightarrow> string list \<Rightarrow> string \<Rightarrow> Issue list" where
  "follow_chain recs recName depth cnameChain currentTarget =
     (if depth < 10 then
        (if currentTarget \<in> set cnameChain then [circular_chain_issue recName]
         else
           (case find_cname recs currentTarget of
              None \<Rightarrow> []
            | Some nextCname \<Rightarrow>
                follow_chain recs recName (depth + 1) (cnameChain @ [currentTarget])
                  (toLowerCase (data nextCname))))
      else [])"
  by pat_completeness auto
termination
  by (relation "measure (\<lambda>(recs, recName, depth, cnameChain, currentTarget). 10 - depth)") auto

declare follow_chain.simps [simp del]

text \<open>What one pass of the outer loop pushes for the record \<open>cnameRecord\<close>.\<close>

definition cname_record_issues :: "DNSRecord list \<Rightarrow> DNSRecord \<Rightarrow> Issue list" where
  "cname_record_issues recs cnameRecord =
     (let recName = toLowerCase (name cnameRecord);
          targetName = toLowerCase (data cnameRecord)
      in if recName = targetName then [self_reference_issue recName]
         else follow_chain recs recName 0 [recName] targetName)"

text \<open>
  \<open>detectCircularCNAME\<close>. Each pass of the outer loop clears \<open>cnameChain\<close> and only
  appends to \<open>errors\<close>, so the result is what the passes push, in order.
\<close>

definition detectCircularCNAME :: "RecordSet \<Rightarrow> string \<Rightarrow> Issue list" where
  "detectCircularCNAME dnsRecords dname =
     (if \<not> has_records dnsRecords ''CNAME'' then []
      else concat (map (cname_record_issues (records_of dnsRecords ''CNAME''))
                     (records_of dnsRecords ''CNAME'')))"

text \<open>
  The chain of a record, told apart from the loop: the target after \<open>d\<close> hops through
  the first record of each name, while there is one; and whether within 10 hops a target
  is the record's own name or an earlier target.
\<close>

fun hop :: "DNSRecord list \<Rightarrow> string \<Rightarrow> nat \<Rightarrow> string option" where
  "hop recs target 0 = Some target"
| "hop recs target (Suc d) =
     (case hop recs target d of
        None \<Rightarrow> None
      | Some t \<Rightarrow> map_option (\<lambda>r. toLowerCase (data r)) (find_cname recs t))"

definition revisit_at :: "DNSRecord list \<Rightarrow> string \<Rightarrow> string \<Rightarrow> nat \<Rightarrow> bool" where
  "revisit_at recs recName target d =
     (case hop recs target d of
        None \<Rightarrow> False
      | Some t \<Rightarrow> t = recName \<or> list_ex (\<lambda>j. hop recs target j = Some t) [0..<d])"

definition revisits :: "DNSRecord list \<Rightarrow> string \<Rightarrow> string \<Rightarrow> bool" where
  "revisits recs recName target = list_ex (revisit_at recs recName target) [0..<10]"

definition cname_record :: "string \<Rightarrow> string \<Rightarrow> DNSRecord" where
  "cname_record n d = \<lparr>name = n, rtype = ''CNAME'', ttl = 300, data = d\<rparr>"

definition cname_set :: "DNSRecord list \<Rightarrow> RecordSet" where
  "cname_set recs =
     [(''CNAME'', \<lparr>domain = ''example.com'', recordType = ''CNAME'', records = recs,
         timestamp = ''2024-01-01T00:00:00.000Z'', source = ''cloudflare'', error = None,
         originalError = None, failedProviders = None, retryable = None\<rparr>)]"

section \<open>MX validation\<close>

text \<open>
  A JavaScript number as far as \<open>parseInt\<close> yields one here: \<open>NaN\<close>, or an integer.
  The source's numbers are doubles; they are the integers themselves up to \<open>2^53\<close>, which
  covers every string of at most 15 characters. Above that, the double of an integer is a
  rounding of it: it compares with 0 and 65535 as the integer does, and equal integers
  have equal doubles, but two different integers may have the same double, and its
  digits, as a message prints them, may not be those of the integer. What is stated of
  \<open>validateMXRecords\<close> for C8 relies, for numbers above \<open>2^53\<close>, on the first two facts
  only; the description of the output by \<open>mx_record_issues\<close> is that of the integers.
\<close>

datatype jsnum = NaN | Num int

definition show_jsnum :: "jsnum \<Rightarrow> string" where
  "show_jsnum x =
     (case x of
        NaN \<Rightarrow> ''NaN''
      | Num n \<Rightarrow> if n < 0 then ''-'' @ show_nat (nat (- n)) else show_nat (nat n))"

text \<open>White space that \<open>parseInt\<close> and \<open>trim\<close> skip, among the codes below 256.\<close>

definition js_space :: "char \<Rightarrow> bool" where
  "js_space c = ((of_char c :: nat) \<in> set [9, 10, 11, 12, 13, 32, 160])"

definition digit_value :: "char \<Rightarrow> nat option" where
  "digit_value c =
     (let n = (of_char c :: nat)
      in if 48 \<le> n \<and> n \<le> 57 then Some (n - 48)
         else if 97 \<le> n \<and> n \<le> 122 then Some (n - 87)
         else if 65 \<le> n \<and> n \<le> 90 then Some (n - 55)
         else None)"

definition radix_digit :: "nat \<Rightarrow> char \<Rightarrow> bool" where
  "radix_digit radix c = (case digit_value c of None \<Rightarrow> False | Some v \<Rightarrow> v < radix)"

text \<open>
  \<open>parseInt(s)\<close> with no radix: leading white space, a sign, \<open>0x\<close> or \<open>0X\<close> for
  radix 16, then the longest run of digits; \<open>NaN\<close> when the run is empty.
\<close>

definition parseInt :: "string \<Rightarrow> jsnum" where
  "parseInt s =
     (let s1 = dropWhile js_space s;
          negative = (s1 \<noteq> [] \<and> hd s1 = CHR ''-'');
          s2 = (if s1 \<noteq> [] \<and> (hd s1 = CHR ''-'' \<or> hd s1 = CHR ''+'') then tl s1 else s1);
          hex = (prefix ''0x'' s2 \<or> prefix ''0X'' s2);
          radix = (if hex then 16 else 10);
          s3 = (if hex then drop 2 s2 else s2);
          z = takeWhile (radix_digit radix) s3;
          mathInt = foldl (\<lambda>acc c. acc * radix + the (digit_value c)) 0 z
      in if z = [] then NaN
         else Num (if negative then - int mathInt else int mathInt))"

definition mx_format_issue :: "DNSRecord \<Rightarrow> Issue" where
  "mx_format_issue mxRecord =
     \<lparr>itype = CONFIGURATION_ERROR, severity = CRITICAL,
      message = ''Invalid MX record format: '' @ data mxRecord,
      affectedRecords = [''MX''], recordName = Some (name mxRecord)\<rparr>"

definition mx_priority_issue :: "DNSRecord \<Rightarrow> string \<Rightarrow> Issue" where
  "mx_priority_issue mxRecord first =
     \<lparr>itype = CONFIGURATION_ERROR, severity = CRITICAL,
      message = ''Invalid MX priority: '' @ first,
      affectedRecords = [''MX''], recordName = Some (name mxRecord)\<rparr>"

definition mx_duplicate_issue :: "DNSRecord \<Rightarrow> jsnum \<Rightarrow> Issue" where
  "mx_duplicate_issue mxRecord priority =
     \<lparr>itype = CONFIGURATION_ERROR, severity = WARNING,
      message = ''Duplicate MX priority: '' @ show_jsnum priority,
      affectedRecords = [''MX''], recordName = Some (name mxRecord)\<rparr>"

text \<open>\<open>isNaN(priority) || priority < 0 || priority > 65535\<close>.\<close>

definition invalid_priority :: "jsnum \<Rightarrow> bool" where
  "invalid_priority p = (case p of NaN \<Rightarrow> True | Num n \<Rightarrow> n < 0 \<or> n > 65535)"

text \<open>
  One pass of the loop of \<open>validateMXRecords\<close> on the issues pushed so far and the set
  \<open>priorities\<close> (a list of its members; \<open>NaN\<close> is a member like any other value, as in a
  JavaScript \<open>Set\<close>).
\<close>

definition mx_step :: "DNSRecord \<Rightarrow> Issue list \<times> jsnum list \<Rightarrow> Issue list \<times> jsnum list" where
  "mx_step mxRecord st =
     (let errors = fst st; priorities = snd st;
          mxData = split_on CHR '' '' (data mxRecord)
      in if length mxData < 2 then (errors @ [mx_format_issue mxRecord], priorities)
         else
           let priority = parseInt (mxData ! 0);
               errors1 = (if invalid_priority priority
                          then errors @ [mx_priority_issue mxRecord (mxData ! 0)]
                          else errors);
               errors2 = (if priority \<in> set priorities
                          then errors1 @ [mx_duplicate_issue mxRecord priority]
                          else errors1)
           in (errors2, priorities @ [priority]))"

definition validateMXRecords :: "RecordSet \<Rightarrow> Issue list" where
  "validateMXRecords dnsRecords =
     (if \<not> has_records dnsRecords ''MX'' then []
      else fst (fold mx_step (records_of dnsRecords ''MX'') ([], [])))"




text \<open>
  What the loop pushes for one MX record, given the records before it: the parsed
  priorities of those with at least two pieces are the members of \<open>priorities\<close>.
\<close>

definition mx_pieces :: "DNSRecord \<Rightarrow> string list" where
  "mx_pieces r = split_on CHR '' '' (data r)"

definition mx_priorities :: "DNSRecord list \<Rightarrow> jsnum list" where
  "mx_priorities rs =
     map (\<lambda>r. parseInt (mx_pieces r ! 0)) (filter (\<lambda>r. \<not> length (mx_pieces r) < 2) rs)"

definition mx_record_issues :: "DNSRecord list \<Rightarrow> DNSRecord \<Rightarrow> Issue list" where
  "mx_record_issues earlier r =
     (if length (mx_pieces r) < 2 then [mx_format_issue r]
      else
        (if invalid_priority (parseInt (mx_pieces r ! 0))
         then [mx_priority_issue r (mx_pieces r ! 0)] else []) @
        (if parseInt (mx_pieces r ! 0) \<in> set (mx_priorities earlier)
         then [mx_duplicate_issue r (parseInt (mx_pieces r ! 0))] else []))"


text \<open>The critical issue of a malformed MX record, and the issues of a run of records.\<close>

definition mx_critical :: "DNSRecord \<Rightarrow> Issue list" where
  "mx_critical r =
     (if length (mx_pieces r) < 2 then [mx_format_issue r]
      else if invalid_priority (parseInt (mx_pieces r ! 0))
      then [mx_priority_issue r (mx_pieces r ! 0)] else [])"

fun mx_issues_from :: "DNSRecord list \<Rightarrow> DNSRecord list \<Rightarrow> Issue list" where
  "mx_issues_from earlier [] = []"
| "mx_issues_from earlier (r # recs) =
     mx_record_issues earlier r @ mx_issues_from (earlier @ [r]) recs"

definition mx_record :: "string \<Rightarrow> DNSRecord" where
  "mx_record d = \<lparr>name = ''example.com'', rtype = ''MX'', ttl = 300, data = d\<rparr>"

definition mx_set :: "DNSRecord list \<Rightarrow> RecordSet" where
  "mx_set recs =
     [(''MX'', \<lparr>domain = ''example.com'', recordType = ''MX'', records = recs,
         timestamp = ''2024-01-01T00:00:00.000Z'', source = ''cloudflare'', error = None,
         originalError = None, failedProviders = None, retryable = None\<rparr>)]"

section \<open>Security records\<close>

text \<open>\<open>s.trim()\<close>.\<close>

definition trim :: "string \<Rightarrow> string" where
  "trim s = rev (dropWhile js_space (rev (dropWhile js_space s)))"

text \<open>
  The number of matches of \<open>/\b(include:|a:|mx:|exists:|redirect=)/g\<close>. The scan goes
  through the string from the left; \<open>skip\<close> counts the characters still covered by the
  last match, \<open>prev_word\<close> tells whether the character before is a word character
  \<open>[A-Za-z0-9_]\<close>. A match starts where \<open>\b\<close> holds (exactly one of that character and
  the current one is a word character) and an alternative, the first that fits, is a
  prefix of the rest.
\<close>

definition word_char :: "char \<Rightarrow> bool" where
  "word_char c = (alnum c \<or> c = CHR ''_'')"

definition lookup_alternatives :: "string list" where
  "lookup_alternatives = [''include:'', ''a:'', ''mx:'', ''exists:'', ''redirect='']"

fun count_lookups :: "nat \<Rightarrow> bool \<Rightarrow> string \<Rightarrow> nat" where
  "count_lookups skip prev_word [] = 0"
| "count_lookups skip prev_word (c # cs) =
     (if skip > 0 then count_lookups (skip - 1) (word_char c) cs
      else if prev_word \<noteq> word_char c
      then (case find (\<lambda>alt. prefix alt (c # cs)) lookup_alternatives of
              Some alt \<Rightarrow> Suc (count_lookups (length alt - 1) (word_char c) cs)
            | None \<Rightarrow> count_lookups 0 (word_char c) cs)
      else count_lookups 0 (word_char c) cs)"

definition lookupMechanisms :: "string \<Rightarrow> nat" where
  "lookupMechanisms spfData = count_lookups 0 False spfData"

definition validateSPFRecord :: "DNSRecord \<Rightarrow> Issue list" where
  "validateSPFRecord spfRecord =
     (let spfData = data spfRecord;
          normalizedSPF = trim (toLowerCase spfData);
          issues1 =
            (if \<not> str_includes normalizedSPF ''v=spf1''
             then [\<lparr>itype = CONFIGURATION_ERROR, severity = CRITICAL,
                    message = ''Invalid SPF record format'',
                    affectedRecords = [''TXT''], recordName = Some (name spfRecord)\<rparr>]
             else []);
          hasTerminator =
            list_ex (\<lambda>term. str_includes spfData term) [''all'', ''~all'', ''-all'', ''?all''];
          issues2 =
            issues1 @
            (if \<not> hasTerminator
             then [\<lparr>itype = CONFIGURATION_ERROR, severity = WARNING,
                    message = ''SPF record lacks proper termination'',
                    affectedRecords = [''TXT''], recordName = Some (name spfRecord)\<rparr>]
             else []);
          lookups = lookupMechanisms spfData
      in issues2 @
         (if lookups > 10
          then [\<lparr>itype = CONFIGURATION_ERROR, severity = CRITICAL,
                 message = ''SPF record exceeds DNS lookup limit ('' @ show_nat lookups @
                           ''/10)'',
                 affectedRecords = [''TXT''], recordName = Some (name spfRecord)\<rparr>]
          else []))"

text \<open>
  The \<open>key=value\<close> pairs of a DMARC or DKIM record: the pieces between semicolons,
  trimmed; of each the first two pieces between equals signs, trimmed; a pair counts when
  both are non-empty, and a later pair replaces an earlier one of the same key.
\<close>

definition parse_pairs :: "string \<Rightarrow> (string \<rightharpoonup> string)" where
  "parse_pairs dat =
     fold (\<lambda>pair m.
             case map trim (split_on CHR ''='' pair) of
               key # val # _ \<Rightarrow> if key \<noteq> [] \<and> val \<noteq> [] then m(key \<mapsto> val) else m
             | _ \<Rightarrow> m)
       (map trim (split_on CHR '';'' dat)) Map.empty"

definition validateDMARCRecord :: "DNSRecord \<Rightarrow> Issue list" where
  "validateDMARCRecord dmarcRecord =
     (let dmarcPairs = parse_pairs (data dmarcRecord);
          config = (\<lambda>sev msg. \<lparr>itype = CONFIGURATION_ERROR, severity = sev, message = msg,
                               affectedRecords = [''TXT''],
                               recordName = Some (name dmarcRecord)\<rparr>)
      in (if (case dmarcPairs ''v'' of None \<Rightarrow> True | Some v \<Rightarrow> toLowerCase v \<noteq> ''dmarc1'')
          then [config CRITICAL ''Invalid DMARC version''] else []) @
         (if (case dmarcPairs ''p'' of
                None \<Rightarrow> True
              | Some pol \<Rightarrow> pol \<notin> set [''none'', ''quarantine'', ''reject''])
          then [config CRITICAL ''Invalid or missing DMARC policy''] else []) @
         (if dmarcPairs ''p'' = Some ''none''
          then [config INFO (''DMARC policy set to '' @ [CHR 0x22] @ ''none'' @ [CHR 0x22])]
          else []) @
         (if dmarcPairs ''rua'' = None \<and> dmarcPairs ''ruf'' = None
          then [config WARNING ''No DMARC reporting addresses configured''] else []))"

definition validateDKIMRecord :: "DNSRecord \<Rightarrow> Issue list" where
  "validateDKIMRecord dkimRecord =
     (let dkimPairs = parse_pairs (data dkimRecord);
          config = (\<lambda>sev msg. \<lparr>itype = CONFIGURATION_ERROR, severity = sev, message = msg,
                               affectedRecords = [''TXT''],
                               recordName = Some (name dkimRecord)\<rparr>)
      in (if (case dkimPairs ''v'' of None \<Rightarrow> True | Some v \<Rightarrow> toLowerCase v \<noteq> ''dkim1'')
          then [config CRITICAL ''Invalid DKIM version''] else []) @
         (case dkimPairs ''p'' of
            None \<Rightarrow> [config CRITICAL ''Missing DKIM public key'']
          | Some key \<Rightarrow>
              if length key < 100 then [config WARNING ''DKIM public key appears too short'']
              else []))"

text \<open>The TXT records that bear an SPF policy: \<open>v=spf1\<close> in the lower-cased data.\<close>

definition spfRecords :: "DNSRecord list \<Rightarrow> DNSRecord list" where
  "spfRecords txtRecords =
     filter (\<lambda>record. str_includes (toLowerCase (data record)) ''v=spf1'') txtRecords"

text \<open>
  \<open>validateSecurityRecords\<close>. The test \<open>/v=dmarc1/i\<close> on codes below 256 is the plain
  search in the lower-cased data.
\<close>

definition validateSecurityRecords :: "RecordSet \<Rightarrow> string \<Rightarrow> Issue list" where
  "validateSecurityRecords dnsRecords dname =
     (let missing = (\<lambda>sev msg. \<lparr>itype = MISSING_SECURITY, severity = sev, message = msg,
                                affectedRecords = [''TXT''], recordName = None\<rparr>)
      in if \<not> has_records dnsRecords ''TXT''
         then [missing WARNING ''No TXT records found'']
         else
           let txtRecords = records_of dnsRecords ''TXT'';
               spfs = spfRecords txtRecords;
               hasSPF = (spfs \<noteq> []);
               issues1 =
                 (if spfs = [] then [missing WARNING ''No SPF record found'']
                  else concat (map validateSPFRecord spfs) @
                       (if length spfs > 1
                        then [\<lparr>itype = CONFIGURATION_ERROR, severity = CRITICAL,
                               message = ''Multiple SPF records found ('' @
                                         show_nat (length spfs) @ '')'',
                               affectedRecords = [''TXT''], recordName = None\<rparr>]
                        else []));
               dmarcRecords =
                 filter (\<lambda>record. str_includes (toLowerCase (data record)) ''v=dmarc1'')
                   txtRecords;
               hasDMARC = (dmarcRecords \<noteq> []);
               issues2 =
                 issues1 @
                 (if dmarcRecords = [] then [missing INFO ''DMARC record location note'']
                  else concat (map validateDMARCRecord dmarcRecords));
               dkimRecords =
                 filter (\<lambda>record. str_includes (toLowerCase (name record)) ''_domainkey'' \<or>
                                   str_includes (toLowerCase (data record)) ''v=dkim1'')
                   txtRecords;
               hasDKIM = (dkimRecords \<noteq> []);
               domainKeyRecords =
                 filter (\<lambda>record. str_includes (toLowerCase (name record)) ''_domainkey'')
                   txtRecords;
               issues3 =
                 issues2 @
                 (if dkimRecords \<noteq> [] then concat (map validateDKIMRecord dkimRecords)
                  else if domainKeyRecords = []
                  then [missing INFO ''No DKIM records found in current query'']
                  else [])
           in issues3 @
              (if hasSPF \<and> hasDMARC \<and> hasDKIM
               then [missing INFO ''Complete email security configuration detected'']
               else []))"

text \<open>
  An SPF record as the specification words the rule: it has a terminating \<open>all\<close>,
  \<open>~all\<close>, \<open>-all\<close> or \<open>?all\<close> mechanism, that is, its last term is one of these.
\<close>

definition spec_spf_terminated :: "string \<Rightarrow> bool" where
  "spec_spf_terminated spfData =
     (last (split_on CHR '' '' spfData) \<in> set [''all'', ''~all'', ''-all'', ''?all''])"

definition txt_record :: "string \<Rightarrow> DNSRecord" where
  "txt_record d = \<lparr>name = ''example.com'', rtype = ''TXT'', ttl = 300, data = d\<rparr>"

definition txt_set :: "DNSRecord list \<Rightarrow> RecordSet" where
  "txt_set recs =
     [(''TXT'', \<lparr>domain = ''example.com'', recordType = ''TXT'', records = recs,
         timestamp = ''2024-01-01T00:00:00.000Z'', source = ''cloudflare'', error = None,
         originalError = None, failedProviders = None, retryable = None\<rparr>)]"

section \<open>Analysis report\<close>

record Summary =
  totalIssues :: nat
  criticalErrors :: nat
  warningCount :: nat
  infoItems :: nat

record AnalysisReport =
  report_domain :: string
  report_timestamp :: string
  errors :: "Issue list"
  warnings :: "Issue list"
  info :: "Issue list"
  summary :: Summary

text \<open>The issues of the five evaluators, in the order \<open>analyzeConfiguration\<close> joins them.\<close>

definition allIssues :: "RecordSet \<Rightarrow> string \<Rightarrow> Issue list" where
  "allIssues dnsRecords dname =
     detectMissingRecords dnsRecords dname @
     analyzeTTL dnsRecords @
     detectCircularCNAME dnsRecords dname @
     validateMXRecords dnsRecords @
     validateSecurityRecords dnsRecords dname"

text \<open>One pass of the loop that sorts the issues by severity.\<close>

definition categorize :: "Issue \<Rightarrow> AnalysisReport \<Rightarrow> AnalysisReport" where
  "categorize issue analysis =
     (case severity issue of
        CRITICAL \<Rightarrow>
          analysis\<lparr>errors := errors analysis @ [issue],
                   summary := (summary analysis)
                     \<lparr>criticalErrors := criticalErrors (summary analysis) + 1\<rparr>\<rparr>
      | WARNING \<Rightarrow>
          analysis\<lparr>warnings := warnings analysis @ [issue],
                   summary := (summary analysis)
                     \<lparr>warningCount := warningCount (summary analysis) + 1\<rparr>\<rparr>
      | INFO \<Rightarrow>
          analysis\<lparr>info := info analysis @ [issue],
                   summary := (summary analysis)
                     \<lparr>infoItems := infoItems (summary analysis) + 1\<rparr>\<rparr>)"

text \<open>
  \<open>analyzeConfiguration\<close>; \<open>stamp\<close> is the time \<open>new Date().toISOString()\<close> gives. The
  field \<open>summary.warnings\<close> is \<open>warningCount\<close> here.
\<close>

definition analyzeConfiguration :: "string \<Rightarrow> RecordSet \<Rightarrow> string \<Rightarrow> AnalysisReport" where
  "analyzeConfiguration stamp dnsRecords dname =
     (let analysis =
            \<lparr>report_domain = dname, report_timestamp = stamp, errors = [], warnings = [],
             info = [],
             summary = \<lparr>totalIssues = 0, criticalErrors = 0, warningCount = 0,
                        infoItems = 0\<rparr>\<rparr>;
          issues = allIssues dnsRecords dname;
          sorted = fold categorize issues analysis
      in sorted\<lparr>summary := (summary sorted)\<lparr>totalIssues := length issues\<rparr>\<rparr>)"

section \<open>Properties of the domain validator\<close>

subsection \<open>The test and the regular expression\<close>

lemma conc_class_Cons [simp]:
  "c # xs \<in> conc {[c] | c. P c} B \<longleftrightarrow> P c \<and> xs \<in> B"
  "[] \<notin> conc {[c] | c. P c} B"
proof -
  show "c # xs \<in> conc {[c] | c. P c} B \<longleftrightarrow> P c \<and> xs \<in> B"
  proof
    assume "c # xs \<in> conc {[c] | c. P c} B"
    then obtain d ys where "c # xs = [d] @ ys" "P d" "ys \<in> B"
      unfolding conc_def by blast
    then show "P c \<and> xs \<in> B" by simp
  next
    assume "P c \<and> xs \<in> B"
    then have "[c] \<in> {[c] | c. P c}" "xs \<in> B" by auto
    then have "[c] @ xs \<in> conc {[c] | c. P c} B" unfolding conc_def by blast
    then show "c # xs \<in> conc {[c] | c. P c} B" by simp
  qed
  show "[] \<notin> conc {[c] | c. P c} B" by (auto simp: conc_def)
qed

lemma upto_class:
  "at_most n {[c] | c. P c} = {xs. length xs \<le> n \<and> list_all P xs}"
proof (induction n)
  case 0
  show ?case by auto
next
  case (Suc n)
  show ?case
  proof (rule set_eqI)
    fix xs
    show "xs \<in> at_most (Suc n) {[c] | c. P c} \<longleftrightarrow> xs \<in> {xs. length xs \<le> Suc n \<and> list_all P xs}"
      by (cases xs) (auto simp: Suc)
  qed
qed

lemma lang_label: "lang label_rexp = {l. match_label l}"
proof (rule set_eqI)
  fix l
  show "l \<in> lang label_rexp \<longleftrightarrow> l \<in> {l. match_label l}"
  proof (cases l)
    case Nil
    then show ?thesis by (simp add: label_rexp_def conc_def match_label_def)
  next
    case (Cons c rest)
    have "rest \<in> {[]} \<union> conc (at_most 61 {[c] | c. alnum_hyphen c}) {[c] | c. alnum c} \<longleftrightarrow>
        rest = [] \<or> (length (butlast rest) \<le> 61 \<and> list_all alnum_hyphen (butlast rest) \<and>
            alnum (last rest))"
    proof (cases "rest = []")
      case True
      then show ?thesis by simp
    next
      case False
      then have sp: "rest = butlast rest @ [last rest]" by simp
      show ?thesis
      proof
        assume "rest \<in> {[]} \<union> conc (at_most 61 {[c] | c. alnum_hyphen c}) {[c] | c. alnum c}"
        with False obtain mid z where "rest = mid @ [z]" "length mid \<le> 61"
          "list_all alnum_hyphen mid" "alnum z"
          by (auto simp: conc_def upto_class)
        then show "rest = [] \<or> (length (butlast rest) \<le> 61 \<and>
            list_all alnum_hyphen (butlast rest) \<and> alnum (last rest))"
          by simp
      next
        assume "rest = [] \<or> (length (butlast rest) \<le> 61 \<and>
            list_all alnum_hyphen (butlast rest) \<and> alnum (last rest))"
        with False have "butlast rest \<in> at_most 61 {[c] | c. alnum_hyphen c}" "alnum (last rest)"
          by (simp_all add: upto_class)
        with sp have "rest \<in> conc (at_most 61 {[c] | c. alnum_hyphen c}) {[c] | c. alnum c}"
          unfolding conc_def by blast
        then show "rest \<in> {[]} \<union> conc (at_most 61 {[c] | c. alnum_hyphen c}) {[c] | c. alnum c}"
          by simp
      qed
    qed
    with Cons show ?thesis
      by (simp add: label_rexp_def match_label_def)
  qed
qed

lemma match_label_no_dot: "match_label l \<Longrightarrow> CHR ''.'' \<notin> set l"
proof -
  assume m: "match_label l"
  have a: "\<not> alnum CHR ''.''" "\<not> alnum_hyphen CHR ''.''"
    by (simp_all add: alnum_def alnum_hyphen_def)
  show ?thesis
  proof (cases l)
    case Nil
    then show ?thesis by simp
  next
    case (Cons c rest)
    show ?thesis
    proof (cases "rest = []")
      case True
      with m Cons a show ?thesis by (auto simp: match_label_def)
    next
      case False
      then have sp: "rest = butlast rest @ [last rest]" by simp
      from m Cons False have "alnum c" "list_all alnum_hyphen (butlast rest)" "alnum (last rest)"
        by (simp_all add: match_label_def)
      then have "CHR ''.'' \<noteq> c" "CHR ''.'' \<notin> set (butlast rest)" "CHR ''.'' \<noteq> last rest"
        using a by (auto simp: list_all_iff)
      then have "CHR ''.'' \<notin> set (c # butlast rest @ [last rest])" by simp
      with sp Cons show ?thesis by simp
    qed
  qed
qed

lemma split_on_no_sep: "c \<notin> set l \<Longrightarrow> split_on c l = [l]"
  by (induction l) auto

lemma split_on_append: "c \<notin> set l \<Longrightarrow> split_on c (l @ c # t) = l # split_on c t"
  by (induction l) auto

lemma split_on_cases:
  obtains "c \<notin> set s" | l t where "s = l @ c # t" and "c \<notin> set l"
  by (metis split_list_first)

lemma many_test:
  assumes "u \<in> many (conc {l. match_label l} {[CHR ''.'']})" and "match_label v"
  shows "list_all match_label (split_on CHR ''.'' (u @ v))"
  using assms(1)
proof (induction rule: many.induct)
  case many_empty
  from assms(2) show ?case by (simp add: split_on_no_sep match_label_no_dot)
next
  case (many_more xs ys)
  then obtain l where "xs = l @ [CHR ''.'']" "match_label l" by (auto simp: conc_def)
  with many_more.IH show ?case
    by (simp add: split_on_append match_label_no_dot)
qed

lemma test_many:
  "list_all match_label (split_on CHR ''.'' s) \<Longrightarrow>
   s \<in> conc (many (conc {l. match_label l} {[CHR ''.'']})) {l. match_label l}"
proof (induction s rule: length_induct)
  case (1 s)
  show ?case
  proof (cases rule: split_on_cases [of "CHR ''.''" s])
    case 1
    with "1.prems" have "match_label s" by (simp add: split_on_no_sep)
    then have "[] @ s \<in> conc (many (conc {l. match_label l} {[CHR ''.'']})) {l. match_label l}"
      unfolding conc_def using many_empty by blast
    then show ?thesis by simp
  next
    case (2 l t)
    with "1.prems" have l: "match_label l" and t: "list_all match_label (split_on CHR ''.'' t)"
      by (simp_all add: split_on_append)
    from 2 have "length t < length s" by simp
    with "1.IH" t obtain u v where uv: "t = u @ v"
      "u \<in> many (conc {l. match_label l} {[CHR ''.'']})" "match_label v"
      by (auto simp: conc_def)
    from l have "l @ [CHR ''.''] \<in> conc {l. match_label l} {[CHR ''.'']}"
      by (auto simp: conc_def)
    from this uv(2) have "(l @ [CHR ''.'']) @ u \<in> many (conc {l. match_label l} {[CHR ''.'']})"
      by (rule many_more)
    moreover have "s = ((l @ [CHR ''.'']) @ u) @ v" using 2 uv by simp
    ultimately show ?thesis unfolding conc_def using uv(3) by blast
  qed
qed

lemma domainRegex_test_lang: "domainRegex_test s \<longleftrightarrow> s \<in> lang domainRegex"
proof -
  have dot: "{[c] | c. c = CHR ''.''} = {[CHR ''.'']}" by auto
  have l: "lang domainRegex =
      conc (many (conc {l. match_label l} {[CHR ''.'']})) {l. match_label l}"
    by (simp add: domainRegex_def lang_label dot)
  show ?thesis
  proof
    assume "domainRegex_test s"
    then show "s \<in> lang domainRegex"
      unfolding l domainRegex_test_def by (rule test_many)
  next
    assume "s \<in> lang domainRegex"
    then obtain u v where "s = u @ v" "u \<in> many (conc {l. match_label l} {[CHR ''.'']})"
      "match_label v"
      unfolding l conc_def by blast
    then show "domainRegex_test s"
      unfolding domainRegex_test_def using many_test by blast
  qed
qed

subsection \<open>Rejected and accepted names\<close>

lemma match_label_no_hyphen_ends:
  assumes "match_label l"
  shows "l \<noteq> [] \<and> hd l \<noteq> CHR ''-'' \<and> last l \<noteq> CHR ''-''"
proof (cases l)
  case Nil
  with assms show ?thesis by (simp add: match_label_def)
next
  case (Cons c rest)
  have h: "\<not> alnum CHR ''-''" by (simp add: alnum_def)
  from assms Cons have c: "alnum c" by (simp add: match_label_def)
  show ?thesis
  proof (cases "rest = []")
    case True
    with Cons c h show ?thesis by auto
  next
    case False
    with assms Cons have "alnum (last rest)" by (simp add: match_label_def)
    with Cons c h False show ?thesis by auto
  qed
qed

text \<open>
  C4. \<open>validateDomain\<close> is false for the empty string, for a string longer than 253
  characters once one trailing dot is stripped, and for a stripped string with a label
  between dots that is empty, longer than 63 characters, or starts or ends with a hyphen;
  \<open>example.com\<close> is valid, \<open>a..b\<close> and \<open>-bad.com\<close> are not.
\<close>

theorem validateDomain_rejects:
  "((s = [] \<or> length (stripTrailingDot s) > 253 \<or>
     (\<exists>l \<in> set (split_on CHR ''.'' (stripTrailingDot s)).
        l = [] \<or> length l > 63 \<or> hd l = CHR ''-'' \<or> last l = CHR ''-''))
    \<longrightarrow> \<not> validateDomain s) \<and>
   validateDomain ''example.com'' \<and>
   \<not> validateDomain ''a..b'' \<and>
   \<not> validateDomain ''-bad.com''"
proof (intro conjI impI)
  assume bad: "s = [] \<or> length (stripTrailingDot s) > 253 \<or>
     (\<exists>l \<in> set (split_on CHR ''.'' (stripTrailingDot s)).
        l = [] \<or> length l > 63 \<or> hd l = CHR ''-'' \<or> last l = CHR ''-'')"
  show "\<not> validateDomain s"
  proof
    assume v: "validateDomain s"
    let ?c = "stripTrailingDot s"
    from v have ne: "s \<noteq> []" and len: "\<not> length ?c > 253"
      and labs: "\<not> list_ex (\<lambda>label. length label = 0 \<or> length label > 63)
                    (split_on CHR ''.'' ?c)"
      and re: "domainRegex_test ?c"
      by (auto simp: validateDomain_def Let_def split: if_splits)
    from bad ne len obtain l where l: "l \<in> set (split_on CHR ''.'' ?c)"
      and lbad: "l = [] \<or> length l > 63 \<or> hd l = CHR ''-'' \<or> last l = CHR ''-''"
      by auto
    from labs l have "l \<noteq> []" and "\<not> length l > 63"
      by (auto simp: list_ex_iff)
    moreover from re l have "match_label l"
      by (simp add: domainRegex_test_def list_all_iff)
    ultimately show False
      using lbad match_label_no_hyphen_ends [of l] by auto
  qed
next
  show "validateDomain ''example.com''"
    by (simp add: validateDomain_def stripTrailingDot_def domainRegex_test_def
        match_label_def alnum_def alnum_hyphen_def)
next
  show "\<not> validateDomain ''a..b''"
    by (simp add: validateDomain_def stripTrailingDot_def)
next
  show "\<not> validateDomain ''-bad.com''"
    by (simp add: validateDomain_def stripTrailingDot_def domainRegex_test_def
        match_label_def alnum_def alnum_hyphen_def)
qed

theorem validateDomain_rejects_witness:
  "last (hd (split_on CHR ''.'' (stripTrailingDot ''bad-.com.''))) = CHR ''-'' \<and>
   \<not> validateDomain ''bad-.com.''"
  using validateDomain_rejects [of "''bad-.com.''"]
  by (simp add: stripTrailingDot_def)

section \<open>Properties of the cache store\<close>

subsection \<open>The TTL of an entry\<close>

lemma fold_min_ttl:
  "fold (\<lambda>record m. if ttl record \<noteq> 0 then min m (ttl record * 1000) else m) rs m =
   fold min (map (\<lambda>t. t * 1000) (filter (\<lambda>t. t \<noteq> 0) (map ttl rs))) m"
  by (induction rs arbitrary: m) (simp_all add: min.commute)

lemma fold_min_ttl_set:
  "fold (\<lambda>(recordType, recordData) m.
           fold (\<lambda>record m. if ttl record \<noteq> 0 then min m (ttl record * 1000) else m)
             (records recordData) m) dat m =
   fold min (record_ttls_ms dat) m"
  by (induction dat arbitrary: m)
    (auto simp: fold_min_ttl record_ttls_ms_def simp del: neq0_conv)

lemma calculateCacheTTL_Min:
  "calculateCacheTTL e dat =
   max 30000 (min 600000 (Min (set (defaultCacheTTL e # record_ttls_ms dat))))"
  by (simp only: calculateCacheTTL_def Let_def fold_min_ttl_set Min.set_eq_fold)

lemma map_of_map_set: "map_of (map_set k v m) k = Some v"
  by (induction m) auto

text \<open>
  The round trip holds on the code. The TTL of a cache entry is the minimum of the engine's
  default and the non-zero TTLs of the records of the set, clamped to 30 s and 600 s, hence
  at least 30 s; and \<open>getFromCache\<close> at any time up to 30 s after \<open>setCache\<close> of the
  same key returns the data stored and leaves the engine as it is.
\<close>

lemma setCache_getFromCache_hit:
  "calculateCacheTTL e v =
     max 30000 (min 600000 (Min (set (defaultCacheTTL e # record_ttls_ms v)))) \<and>
   30000 \<le> calculateCacheTTL e v \<and> calculateCacheTTL e v \<le> 600000 \<and>
   (now' \<le> now + 30000 \<longrightarrow>
      getFromCache now' k (setCache now k v None e) = (Some v, setCache now k v None e))"
proof (intro conjI impI)
  show "calculateCacheTTL e v =
      max 30000 (min 600000 (Min (set (defaultCacheTTL e # record_ttls_ms v))))"
    by (rule calculateCacheTTL_Min)
  show "30000 \<le> calculateCacheTTL e v" and "calculateCacheTTL e v \<le> 600000"
    by (simp_all add: calculateCacheTTL_def Let_def)
next
  assume "now' \<le> now + 30000"
  then show "getFromCache now' k (setCache now k v None e) = (Some v, setCache now k v None e)"
    by (simp add: getFromCache_def setCache_def Let_def map_of_map_set calculateCacheTTL_def)
qed

lemma setCache_getFromCache_example:
  "fst (getFromCache 1000 ''example.com:ALL''
         (setCache 1000 ''example.com:ALL'' example_records None DNSQueryEngine))
   = Some example_records"
  using setCache_getFromCache_hit
    [of DNSQueryEngine example_records 1000 1000 "''example.com:ALL''"]
  by simp

text \<open>
  No method writes \<open>defaultCacheTTL\<close>, and the running minimum of \<open>calculateCacheTTL\<close>
  starts there: on every engine a program can hold the TTL is at most 300 s, whatever the
  records, and the upper clamp of 600 s is never what decides.
\<close>

lemma defaultCacheTTL_setCache:
  "defaultCacheTTL (setCache now key dat ttl_arg e) = defaultCacheTTL e"
  by (simp add: setCache_def Let_def)

lemma defaultCacheTTL_getFromCache:
  "defaultCacheTTL (snd (getFromCache now key e)) = defaultCacheTTL e"
  by (simp add: getFromCache_def split: option.splits)

lemma defaultCacheTTL_queryAllRecords:
  "defaultCacheTTL (snd (queryAllRecords now now' stamp net dname preferredProvider e))
   = defaultCacheTTL e"
proof -
  obtain r e1 where g: "getFromCache now (toLowerCase dname @ '':ALL'') e = (r, e1)"
    by (cases "getFromCache now (toLowerCase dname @ '':ALL'') e")
  from defaultCacheTTL_getFromCache [of now "toLowerCase dname @ '':ALL''" e] g
  have "defaultCacheTTL e1 = defaultCacheTTL e" by simp
  with g show ?thesis
    by (simp add: queryAllRecords_def Let_def defaultCacheTTL_setCache split: option.splits)
qed

lemma reachable_defaultCacheTTL: "reachable e \<Longrightarrow> defaultCacheTTL e = 300000"
proof (induction rule: reachable.induct)
  case reachable_new
  show ?case by (simp add: DNSQueryEngine_def)
next
  case (reachable_clearCache e)
  then show ?case by (simp add: clearCache_def)
next
  case (reachable_setTimeout e t e')
  then show ?case by (auto simp: setTimeout_def split: if_splits)
next
  case (reachable_setMaxRetries e n e')
  then show ?case by (auto simp: setMaxRetries_def split: if_splits)
qed (simp_all add: defaultCacheTTL_setCache defaultCacheTTL_getFromCache
      defaultCacheTTL_queryAllRecords)

lemma calculateCacheTTL_at_most_default:
  assumes "reachable e"
  shows "calculateCacheTTL e v \<le> 300000"
proof -
  have "Min (set (defaultCacheTTL e # record_ttls_ms v)) \<le> defaultCacheTTL e"
    by (rule Min_le) simp_all
  with reachable_defaultCacheTTL [OF assms]
  have "Min (set (defaultCacheTTL e # record_ttls_ms v)) \<le> 300000" by simp
  then show ?thesis
    by (simp only: calculateCacheTTL_Min)
qed

text \<open>
  C5. The TTL that the code computes is not the one stated. For a record set whose only
  record has a TTL of 3600 s, the minimum per-record TTL clamped to 30 s and 600 s is
  600 s; \<open>calculateCacheTTL\<close> on the constructor's engine gives 300 s, and a read 400 s
  after the write finds the entry expired. The comments of the source state the rule of
  the claim (\<open>Calculate TTL from DNS record TTLs or use default\<close>, \<open>Minimum 30 seconds,
  maximum 10 minutes\<close>).
\<close>

theorem calculateCacheTTL_capped_by_default:
  "calculateCacheTTL DNSQueryEngine example_records = 300000 \<and>
   spec_cacheTTL example_records = 600000 \<and>
   fst (getFromCache 401000 ''example.com:ALL''
         (setCache 1000 ''example.com:ALL'' example_records None DNSQueryEngine)) = None"
  by (simp add: calculateCacheTTL_def spec_cacheTTL_def getFromCache_def setCache_def
      DNSQueryEngine_def example_records_def example_result_def)

subsection \<open>Capacity and eviction\<close>

lemma keys_map_set:
  "map fst (map_set k v m) = (if k \<in> set (map fst m) then map fst m else map fst m @ [k])"
  by (induction m) (fastforce simp: image_iff)+

lemma length_map_set:
  "length (map_set k v m) = (if k \<in> set (map fst m) then length m else Suc (length m))"
  by (induction m) (fastforce simp: image_iff)+

lemma keys_map_delete: "map fst (map_delete k m) = filter (\<lambda>k'. k' \<noteq> k) (map fst m)"
  by (simp add: map_delete_def filter_map comp_def)

lemma map_delete_first:
  "k \<notin> set (map fst m) \<Longrightarrow> map_delete k ((k, v) # m) = m"
  by (auto simp: map_delete_def filter_id_conv image_iff)

text \<open>With distinct keys, deleting the first key drops the first entry.\<close>

lemma evict_eq:
  assumes "distinct (map fst (cache e))"
  shows "(if length (cache e) \<ge> maxCacheSize e
          then (case cache e of
                  [] \<Rightarrow> []
                | (firstKey, _) # _ \<Rightarrow> map_delete firstKey (cache e))
          else cache e) =
         (if length (cache e) \<ge> maxCacheSize e then tl (cache e) else cache e)"
  using assms by (cases "cache e") (auto simp: map_delete_first simp del: set_map)

lemma cache_setCache:
  assumes "distinct (map fst (cache e))"
  shows "cache (setCache now key dat ttl_arg e) =
     map_set key
       \<lparr>entry_data = dat,
        expiresAt = now + (case ttl_arg of
                             None \<Rightarrow> calculateCacheTTL e dat
                           | Some t \<Rightarrow> if t \<noteq> 0 then t else calculateCacheTTL e dat),
        cachedAt = now\<rparr>
       (if length (cache e) \<ge> maxCacheSize e then tl (cache e) else cache e)"
  unfolding setCache_def Let_def evict_eq [OF assms] by simp

lemma maxCacheSize_setCache [simp]:
  "maxCacheSize (setCache now key dat ttl_arg e) = maxCacheSize e"
  by (simp add: setCache_def Let_def)

lemma cache_inv_setCache:
  assumes "cache_inv e"
  shows "cache_inv (setCache now key dat ttl_arg e)"
proof -
  from assms have d: "distinct (map fst (cache e))" and m: "maxCacheSize e = 50"
    and l: "length (cache e) \<le> 50" by (simp_all add: cache_inv_def)
  let ?c = "if length (cache e) \<ge> maxCacheSize e then tl (cache e) else cache e"
  have dc: "distinct (map fst ?c)" using d by (simp add: map_tl distinct_tl)
  have lc: "length ?c < 50" using l m by (cases "cache e") auto
  show ?thesis
    unfolding cache_inv_def cache_setCache [OF d]
    using dc lc m by (simp add: keys_map_set length_map_set del: map_set.simps)
qed

lemma cache_inv_getFromCache:
  assumes "cache_inv e"
  shows "cache_inv (snd (getFromCache now key e))"
proof -
  have "length (map_delete key (cache e)) \<le> length (cache e)"
    by (simp add: map_delete_def)
  with assms show ?thesis
    by (auto simp: cache_inv_def getFromCache_def keys_map_delete split: option.splits)
qed

lemma cache_inv_update [simp]:
  "cache_inv (e\<lparr>hits := h\<rparr>) = cache_inv e"
  "cache_inv (e\<lparr>misses := n\<rparr>) = cache_inv e"
  "cache_inv (e\<lparr>timeout := t\<rparr>) = cache_inv e"
  "cache_inv (e\<lparr>maxRetries := r\<rparr>) = cache_inv e"
  by (simp_all add: cache_inv_def)

lemma cache_inv_queryAllRecords:
  assumes "cache_inv e"
  shows "cache_inv (snd (queryAllRecords now now' stamp net dname preferredProvider e))"
proof -
  obtain r e1 where g: "getFromCache now (toLowerCase dname @ '':ALL'') e = (r, e1)"
    by (cases "getFromCache now (toLowerCase dname @ '':ALL'') e")
  from cache_inv_getFromCache [OF assms, of now "toLowerCase dname @ '':ALL''"] g
  have i1: "cache_inv e1" by simp
  then have "cache_inv (e1\<lparr>misses := misses e1 + 1\<rparr>)" by simp
  note i2 = this cache_inv_setCache [OF this]
  show ?thesis
    using assms i1 i2 g
    by (simp add: queryAllRecords_def Let_def split: option.splits)
qed

text \<open>Every engine a program can hold satisfies the invariant of the cache.\<close>

lemma reachable_cache_inv: "reachable e \<Longrightarrow> cache_inv e"
proof (induction rule: reachable.induct)
  case reachable_new
  show ?case by (simp add: cache_inv_def DNSQueryEngine_def)
next
  case (reachable_clearCache e)
  then show ?case by (simp add: cache_inv_def clearCache_def)
next
  case (reachable_setTimeout e t e')
  then show ?case by (auto simp: setTimeout_def split: if_splits)
next
  case (reachable_setMaxRetries e n e')
  then show ?case by (auto simp: setMaxRetries_def split: if_splits)
qed (simp_all add: cache_inv_setCache cache_inv_getFromCache cache_inv_queryAllRecords)

lemma reachable_insert_all: "reachable e \<Longrightarrow> reachable (insert_all tm dat ks e)"
  unfolding insert_all_def
  by (induction ks arbitrary: e) (simp_all add: reachable_setCache)

lemma keys_insert_all:
  "distinct ks \<Longrightarrow> length ks \<le> 50 \<Longrightarrow>
   map fst (cache (insert_all tm dat ks DNSQueryEngine)) = ks"
proof (induction ks rule: rev_induct)
  case Nil
  show ?case by (simp add: insert_all_def DNSQueryEngine_def)
next
  case (snoc k ks)
  let ?e = "insert_all tm dat ks DNSQueryEngine"
  from snoc have keys: "map fst (cache ?e) = ks" by simp
  have inv: "cache_inv ?e"
    by (rule reachable_cache_inv) (simp add: reachable_insert_all reachable_new)
  then have d: "distinct (map fst (cache ?e))" and m: "maxCacheSize ?e = 50"
    by (simp_all add: cache_inv_def)
  have len: "length (cache ?e) = length ks" using keys by (metis length_map)
  have step: "insert_all tm dat (ks @ [k]) DNSQueryEngine = setCache (tm k) k (dat k) None ?e"
    by (simp add: insert_all_def)
  show ?case
    unfolding step using snoc.prems keys len m
    by (simp add: cache_setCache [OF d] keys_map_set)
qed

lemma evicted_first:
  assumes "distinct (ks @ [k])" and "length ks = 50"
  shows "map fst (cache (setCache now k v None (insert_all tm dat ks DNSQueryEngine)))
         = tl ks @ [k]"
    and "fst (getFromCache now' (hd ks)
           (setCache now k v None (insert_all tm dat ks DNSQueryEngine))) = None"
proof -
  let ?e = "insert_all tm dat ks DNSQueryEngine"
  from assms have keys: "map fst (cache ?e) = ks" by (simp add: keys_insert_all)
  have inv: "cache_inv ?e"
    by (rule reachable_cache_inv) (simp add: reachable_insert_all reachable_new)
  then have d: "distinct (map fst (cache ?e))" and m: "maxCacheSize ?e = 50"
    by (simp_all add: cache_inv_def)
  have len: "length (cache ?e) = 50" using keys assms by (metis length_map)
  have k: "k \<notin> set (tl ks)" using assms by (cases ks) auto
  show a: "map fst (cache (setCache now k v None ?e)) = tl ks @ [k]"
    using keys len m k by (simp add: cache_setCache [OF d] keys_map_set map_tl)
  have "hd ks \<notin> set (tl ks @ [k])" using assms by (cases ks) auto
  with a have "hd ks \<notin> fst ` set (cache (setCache now k v None ?e))"
    by (metis set_map)
  then have "map_of (cache (setCache now k v None ?e)) (hd ks) = None"
    by (simp add: map_of_eq_None_iff)
  then show "fst (getFromCache now' (hd ks) (setCache now k v None ?e)) = None"
    by (simp add: getFromCache_def)
qed

lemma fifty_keys_distinct:
  "distinct (fifty_keys @ [''new'']) \<and> length fifty_keys = 50 \<and> hd fifty_keys = ''k''"
  by (auto simp: fifty_keys_def distinct_map inj_on_def upt_conv_Cons)

text \<open>
  C6. An engine that a program can hold has at most 50 cache entries. At 50 entries,
  \<open>setCache\<close> drops the first entry in insertion order and then stores the key. After
  \<open>setCache\<close> for 50 distinct keys on a new engine the cache holds these keys in their
  order; \<open>setCache\<close> for one more key leaves the keys but the first, then the new key, and
  \<open>getFromCache\<close> for the first key returns nothing. A \<open>getFromCache\<close> that finds
  its key leaves the engine as it is, so the order of the entries is that of insertion, not
  of use.
\<close>

theorem cache_capacity_eviction:
  "(reachable e \<longrightarrow>
      length (cache e) \<le> 50 \<and>
      (length (cache e) = 50 \<longrightarrow>
         map fst (cache (setCache now key dat ttl_arg e)) =
           (if key \<in> set (tl (map fst (cache e))) then tl (map fst (cache e))
            else tl (map fst (cache e)) @ [key]))) \<and>
   (distinct (ks @ [k]) \<and> length ks = 50 \<longrightarrow>
      reachable (insert_all tm dt ks DNSQueryEngine) \<and>
      map fst (cache (insert_all tm dt ks DNSQueryEngine)) = ks \<and>
      map fst (cache (setCache now k v None (insert_all tm dt ks DNSQueryEngine)))
        = tl ks @ [k] \<and>
      fst (getFromCache now' (hd ks)
             (setCache now k v None (insert_all tm dt ks DNSQueryEngine))) = None) \<and>
   (fst (getFromCache rnow rkey re) \<noteq> None \<longrightarrow> snd (getFromCache rnow rkey re) = re)"
proof (intro conjI impI)
  assume r: "reachable e"
  then have inv: "cache_inv e" by (rule reachable_cache_inv)
  then show "length (cache e) \<le> 50" by (simp add: cache_inv_def)
  assume full: "length (cache e) = 50"
  from inv have d: "distinct (map fst (cache e))" and m: "maxCacheSize e = 50"
    by (simp_all add: cache_inv_def)
  show "map fst (cache (setCache now key dat ttl_arg e)) =
      (if key \<in> set (tl (map fst (cache e))) then tl (map fst (cache e))
       else tl (map fst (cache e)) @ [key])"
    using full m by (simp add: cache_setCache [OF d] keys_map_set map_tl)
next
  assume a: "distinct (ks @ [k]) \<and> length ks = 50"
  show "reachable (insert_all tm dt ks DNSQueryEngine)"
    by (simp add: reachable_insert_all reachable_new)
  show "map fst (cache (insert_all tm dt ks DNSQueryEngine)) = ks"
    using a by (simp add: keys_insert_all)
  show "map fst (cache (setCache now k v None (insert_all tm dt ks DNSQueryEngine)))
      = tl ks @ [k]"
    using a evicted_first(1) by blast
  show "fst (getFromCache now' (hd ks)
      (setCache now k v None (insert_all tm dt ks DNSQueryEngine))) = None"
    using a evicted_first(2) by blast
next
  assume "fst (getFromCache rnow rkey re) \<noteq> None"
  then show "snd (getFromCache rnow rkey re) = re"
    by (simp add: getFromCache_def split: option.splits if_splits)
qed

theorem cache_capacity_eviction_witness:
  "length (cache (insert_all (\<lambda>k. 0) (\<lambda>k. []) fifty_keys DNSQueryEngine)) = 50 \<and>
   map fst (cache (setCache 0 ''new'' [] None
      (insert_all (\<lambda>k. 0) (\<lambda>k. []) fifty_keys DNSQueryEngine)))
     = tl fifty_keys @ [''new''] \<and>
   fst (getFromCache 0 ''k'' (setCache 0 ''new'' [] None
      (insert_all (\<lambda>k. 0) (\<lambda>k. []) fifty_keys DNSQueryEngine))) = None"
proof -
  let ?e = "insert_all (\<lambda>k. 0) (\<lambda>k. []) fifty_keys DNSQueryEngine"
  note f = fifty_keys_distinct
  note t = cache_capacity_eviction
    [of ?e 0 "''new''" "[]" None fifty_keys "''new''" "\<lambda>k. 0" "\<lambda>k. []" "[]" 0]
  from t f have keys: "map fst (cache ?e) = fifty_keys" and r: "reachable ?e" by simp_all
  from keys f have len: "length (cache ?e) = 50" by (metis length_map)
  from t f have ev: "map fst (cache (setCache 0 ''new'' [] None ?e)) = tl fifty_keys @ [''new'']"
    by simp
  from t f have "fst (getFromCache 0 (hd fifty_keys) (setCache 0 ''new'' [] None ?e)) = None"
    by simp
  with f have "fst (getFromCache 0 ''k'' (setCache 0 ''new'' [] None ?e)) = None" by simp
  with len ev show ?thesis by simp
qed

section \<open>Properties of the query engine\<close>

subsection \<open>Retries\<close>

lemma providers_of_simps [simp]:
  "providers_of [] = []"
  "providers_of (Attempt p n # tr) = p # providers_of tr"
  "providers_of (Sleep d # tr) = providers_of tr"
  "providers_of (tr @ tr') = providers_of tr @ providers_of tr'"
  by (simp_all add: providers_of_def)

lemma queryWithRetry_from_providers:
  "\<exists>k. providers_of (fst (queryWithRetry_from e net p a l)) = replicate k p \<and>
       k \<le> maxRetries e + 1 - a \<and> (a \<le> maxRetries e \<longrightarrow> 0 < k \<and> snd (queryWithRetry_from e net p a l) \<noteq> Inl Null)"
proof (induction e net p a l rule: queryWithRetry_from.induct)
  case (1 e net p a l)
  show ?case
  proof (cases "a \<le> maxRetries e")
    case False
    then show ?thesis by (simp add: queryWithRetry_from.simps [of e net p a l])
  next
    case le: True
    show ?thesis
    proof (cases "performQuery e p (net a)")
      case (Inr r)
      with le show ?thesis
        by (intro exI [of _ 1]) (simp add: queryWithRetry_from.simps [of e net p a l])
    next
      case (Inl m)
      let ?stop = "str_includes m ''Invalid domain'' \<or> str_includes m ''Unsupported'' \<or>
                (str_includes m ''DoH API request failed'' \<and> str_includes m ''4'')"
      show ?thesis
      proof (cases "?stop \<or> a = maxRetries e")
        case True
        with le Inl show ?thesis
          by (intro exI [of _ 1]) (auto simp: queryWithRetry_from.simps [of e net p a l])
      next
        case False
        with le Inl "1.IH" [of m "retryDelay e * 2 ^ (a - 1)"]
        obtain k where k: "providers_of (fst (queryWithRetry_from e net p (a + 1) (Error m))) = replicate k p"
          "k \<le> maxRetries e + 1 - (a + 1)"
          "a + 1 \<le> maxRetries e \<longrightarrow> snd (queryWithRetry_from e net p (a + 1) (Error m)) \<noteq> Inl Null"
          by auto
        from False le have "a + 1 \<le> maxRetries e" by simp
        with False le Inl k show ?thesis
          by (intro exI [of _ "Suc k"]) (auto simp: queryWithRetry_from.simps [of e net p a l] Let_def)
      qed
    qed
  qed
qed

lemma queryWithRetry_providers:
  assumes "1 \<le> maxRetries e"
  obtains k where "providers_of (fst (queryWithRetry e net p)) = replicate (Suc k) p"
    and "Suc k \<le> maxRetries e" and "snd (queryWithRetry e net p) \<noteq> Inl Null"
proof -
  from queryWithRetry_from_providers [of e net p 1 Null] assms
  obtain k where "providers_of (fst (queryWithRetry e net p)) = replicate k p"
    "k \<le> maxRetries e" "0 < k" "snd (queryWithRetry e net p) \<noteq> Inl Null"
    by (auto simp: queryWithRetry_def)
  then show ?thesis using that [of "k - 1"] by simp
qed

lemma attempted_queryWithRetry:
  assumes "1 \<le> maxRetries e"
  shows "attempted (fst (queryWithRetry e net p)) = [p]"
  using queryWithRetry_providers [OF assms, of net p]
  by (metis attempted_def remdups_adj_replicate nat.simps(3))

lemma queryWithRetry_from_sleeps:
  "Sleep d \<in> set (fst (queryWithRetry_from e net p a l)) \<Longrightarrow>
   \<exists>n. a \<le> n \<and> n < maxRetries e \<and> d = retryDelay e * 2 ^ (n - 1)"
proof (induction e net p a l rule: queryWithRetry_from.induct)
  case (1 e net p a l)
  show ?case
  proof (cases "a \<le> maxRetries e")
    case False
    with "1.prems" show ?thesis by (simp add: queryWithRetry_from.simps [of e net p a l])
  next
    case le: True
    show ?thesis
    proof (cases "performQuery e p (net a)")
      case (Inr r)
      with le "1.prems" show ?thesis
        by (simp add: queryWithRetry_from.simps [of e net p a l])
    next
      case (Inl m)
      show ?thesis
      proof (cases "(str_includes m ''Invalid domain'' \<or> str_includes m ''Unsupported'' \<or>
                (str_includes m ''DoH API request failed'' \<and> str_includes m ''4'')) \<or> a = maxRetries e")
        case True
        with le Inl have "fst (queryWithRetry_from e net p a l) = [Attempt p a]"
          by (auto simp: queryWithRetry_from.simps [of e net p a l])
        with "1.prems" show ?thesis by simp
      next
        case False
        with le Inl "1.prems"
        have "d = retryDelay e * 2 ^ (a - 1) \<or>
              Sleep d \<in> set (fst (queryWithRetry_from e net p (a + 1) (Error m)))"
          by (auto simp: queryWithRetry_from.simps [of e net p a l] Let_def)
        then show ?thesis
        proof
          assume "d = retryDelay e * 2 ^ (a - 1)"
          with False le show ?thesis by (intro exI [of _ a]) auto
        next
          assume "Sleep d \<in> set (fst (queryWithRetry_from e net p (a + 1) (Error m)))"
          with "1.IH" [of m "retryDelay e * 2 ^ (a - 1)"] False le Inl
          obtain n where "a + 1 \<le> n" "n < maxRetries e" "d = retryDelay e * 2 ^ (n - 1)"
            by auto
          then show ?thesis by (intro exI [of _ n]) auto
        qed
      qed
    qed
  qed
qed

lemma show_nat_4xx:
  assumes "400 \<le> n" and "n < 500"
  shows "\<exists>rest. show_nat n = CHR ''4'' # rest"
proof -
  from assms have d: "n div 10 div 10 = 4" by simp
  from assms have "show_nat n = show_nat (n div 10 div 10) @
      [''0123456789'' ! (n div 10 mod 10), ''0123456789'' ! (n mod 10)]"
    by (simp add: show_nat.simps [of n] show_nat.simps [of "n div 10"])
  with d show ?thesis by (simp add: show_nat.simps [of 4])
qed

lemma str_includes_append:
  "str_includes b t \<Longrightarrow> str_includes (a @ b @ c) t"
  unfolding str_includes_def by (metis sublist_appendI sublist_order.order_trans)

lemma str_includes_prefix: "str_includes (t @ c) t"
  by (simp add: str_includes_def)

lemma client_error_message:
  assumes "400 \<le> status" and "status < 500"
  shows "str_includes (''DoH API request failed: '' @ show_nat status @ '' '' @ statusText)
           ''DoH API request failed'' \<and>
         str_includes (''DoH API request failed: '' @ show_nat status @ '' '' @ statusText) ''4''"
proof -
  from show_nat_4xx [OF assms] obtain rest where r: "show_nat status = CHR ''4'' # rest" by blast
  have "str_includes (''DoH API request failed: '' @ ''4'' @ (rest @ '' '' @ statusText)) ''4''"
    by (rule str_includes_append) (simp add: str_includes_def)
  moreover have "str_includes (''DoH API request failed'' @ ('': '' @ show_nat status @ '' '' @ statusText))
      ''DoH API request failed''"
    by (rule str_includes_prefix)
  ultimately show ?thesis using r by simp
qed

lemma queryWithRetry_final_errors:
  assumes "1 \<le> maxRetries e" and "performQuery e p (net 1) = Inl m"
    and "str_includes m ''Invalid domain'' \<or> str_includes m ''Unsupported'' \<or>
         (str_includes m ''DoH API request failed'' \<and> str_includes m ''4'')"
  shows "queryWithRetry e net p = ([Attempt p 1], Inl (Error m))"
  unfolding queryWithRetry_def
  by (subst queryWithRetry_from.simps) (use assms in auto)

lemma queryWithRetry_client_error:
  assumes "1 \<le> maxRetries e" and "net 1 = Response_failed status statusText"
    and "400 \<le> status" and "status < 500"
  shows "queryWithRetry e net p =
     ([Attempt p 1],
      Inl (Error (''DoH API request failed: '' @ show_nat status @ '' '' @ statusText)))"
proof -
  have pq: "performQuery e p (net 1) =
      Inl (''DoH API request failed: '' @ show_nat status @ '' '' @ statusText)"
    using assms(2) by (simp add: performQuery_def)
  show ?thesis
    by (rule queryWithRetry_final_errors [where net = net, OF assms(1) pq])
      (use client_error_message [OF assms(3,4)] in blast)
qed

lemma show_nat_examples:
  "show_nat 404 = ''404''" "show_nat 500 = ''500''" "show_nat 504 = ''504''"
  "show_nat 10000 = ''10000''"
  by (simp_all add: show_nat.simps)

text \<open>
  C2, where the code departs from it. With the constructor's settings (3 attempts, base
  delay 1000 ms), a provider that always answers 504 is asked once and the error is thrown
  at once, because its message contains the character \<open>4\<close>; a provider that always
  answers 500 is asked three times, with waits of 1000 ms and 2000 ms, and the last error
  is thrown.
\<close>

theorem queryWithRetry_504_not_retried:
  "queryWithRetry DNSQueryEngine (\<lambda>n. Response_failed 504 ''Gateway Timeout'') ''cloudflare'' =
     ([Attempt ''cloudflare'' 1],
      Inl (Error ''DoH API request failed: 504 Gateway Timeout'')) \<and>
   queryWithRetry DNSQueryEngine (\<lambda>n. Response_failed 500 ''Internal Server Error'')
       ''cloudflare'' =
     ([Attempt ''cloudflare'' 1, Sleep 1000, Attempt ''cloudflare'' 2, Sleep 2000,
       Attempt ''cloudflare'' 3],
      Inl (Error ''DoH API request failed: 500 Internal Server Error''))"
  by (simp add: queryWithRetry_def queryWithRetry_from.simps performQuery_def
      show_nat_examples DNSQueryEngine_def str_includes_def sublist_code prefix_code Let_def)

subsection \<open>Provider fallback\<close>









lemma example_valid: "validateDomain ''example.com''"
  by (simp add: validateDomain_def stripTrailingDot_def domainRegex_test_def
      match_label_def alnum_def alnum_hyphen_def)






subsection \<open>All record types\<close>

lemma performQuery_config:
  "timeout e' = timeout e \<Longrightarrow> performQuery e' p out = performQuery e p out"
  by (cases out) (simp_all add: performQuery_def)

lemma queryWithRetry_from_config:
  "timeout e' = timeout e \<Longrightarrow> maxRetries e' = maxRetries e \<Longrightarrow>
   retryDelay e' = retryDelay e \<Longrightarrow>
   queryWithRetry_from e' net p a l = queryWithRetry_from e net p a l"
proof (induction e net p a l rule: queryWithRetry_from.induct)
  case (1 e net p a l)
  note pq = performQuery_config [OF "1.prems"(1)]
  show ?case
  proof (cases "a \<le> maxRetries e")
    case False
    with "1.prems" show ?thesis
      by (simp add: queryWithRetry_from.simps [of e' net p a l]
          queryWithRetry_from.simps [of e net p a l])
  next
    case le: True
    show ?thesis
    proof (cases "performQuery e p (net a)")
      case (Inr r)
      with le "1.prems" show ?thesis
        by (simp add: queryWithRetry_from.simps [of e' net p a l]
            queryWithRetry_from.simps [of e net p a l] pq)
    next
      case (Inl m)
      show ?thesis
      proof (cases "(str_includes m ''Invalid domain'' \<or> str_includes m ''Unsupported'' \<or>
                (str_includes m ''DoH API request failed'' \<and> str_includes m ''4'')) \<or> a = maxRetries e")
        case True
        with le Inl "1.prems" show ?thesis
          by (auto simp: queryWithRetry_from.simps [of e' net p a l]
              queryWithRetry_from.simps [of e net p a l] pq)
      next
        case False
        with le Inl "1.IH" [of m "retryDelay e * 2 ^ (a - 1)"] "1.prems"
        have "queryWithRetry_from e' net p (a + 1) (Error m) =
              queryWithRetry_from e net p (a + 1) (Error m)"
          by auto
        with False le Inl "1.prems" show ?thesis
          by (auto simp: queryWithRetry_from.simps [of e' net p a l]
              queryWithRetry_from.simps [of e net p a l] pq Let_def)
      qed
    qed
  qed
qed

lemma queryWithRetry_config:
  "timeout e' = timeout e \<Longrightarrow> maxRetries e' = maxRetries e \<Longrightarrow>
   retryDelay e' = retryDelay e \<Longrightarrow>
   queryWithRetry e' net p = queryWithRetry e net p"
  by (simp only: queryWithRetry_def queryWithRetry_from_config [of e' e])

lemma tryProviders_config:
  assumes "timeout e' = timeout e" and "maxRetries e' = maxRetries e"
    and "retryDelay e' = retryDelay e"
  shows "tryProviders e' net ps l = tryProviders e net ps l"
proof (induction ps arbitrary: l)
  case Nil
  show ?case by (simp only: tryProviders.simps)
next
  case (Cons p ps)
  show ?case
    by (simp only: tryProviders.simps Cons.IH queryWithRetry_config [OF assms])
qed

lemma queryDNS_config:
  "timeout e' = timeout e \<Longrightarrow> maxRetries e' = maxRetries e \<Longrightarrow>
   retryDelay e' = retryDelay e \<Longrightarrow>
   queryDNS e' net d t pref = queryDNS e net d t pref"
  by (simp only: queryDNS_def tryProviders_config [of e' e])

lemma getFromCache_config:
  "timeout (snd (getFromCache now key e)) = timeout e"
  "maxRetries (snd (getFromCache now key e)) = maxRetries e"
  "retryDelay (snd (getFromCache now key e)) = retryDelay e"
  by (simp_all add: getFromCache_def split: option.splits)

lemma concat_batches: "concat (batches xs) = xs"
proof (induction xs rule: batches.induct)
  case (1 xs)
  then show ?case
    by (cases "xs = []") (simp_all add: batches.simps [of xs] batches.simps [of "[]"])
qed

lemma fold_map_set_fresh:
  "distinct (map fst kvs) \<Longrightarrow> set (map fst acc) \<inter> set (map fst kvs) = {} \<Longrightarrow>
   fold (\<lambda>(k, v, s) rs. map_set k v rs) kvs acc = acc @ map (\<lambda>(k, v, s). (k, v)) kvs"
proof (induction kvs arbitrary: acc)
  case Nil
  then show ?case by simp
next
  case (Cons kv kvs)
  obtain k v s where kv: "kv = (k, v, s)" by (cases kv)
  have ms: "map_set k v acc = acc @ [(k, v)]"
    using Cons.prems(2) kv by (induction acc) auto
  have "set (map fst (acc @ [(k, v)])) \<inter> set (map fst kvs) = {}"
    using Cons.prems kv by auto
  with Cons.IH [of "acc @ [(k, v)]"] Cons.prems(1) kv ms show ?case by simp
qed

lemma types_distinct: "distinct (map fst recordTypes) \<and> length (map fst recordTypes) = 9"
  by (simp add: recordTypes_def)

lemma map_of_map_key:
  "t \<in> set ts \<Longrightarrow> map_of (map (\<lambda>t. (t, f t)) ts) t = Some (f t)"
  by (induction ts) auto

lemma invalid_all_fail:
  "\<not> validateDomain d \<Longrightarrow> isl (snd (queryDNS e net d t pref))"
  by (simp add: queryDNS_def)

lemma responses_any:
  "list_ex (\<lambda>(k, v, s). s) (map (\<lambda>t. (t, f t, g t)) ts) \<longleftrightarrow> (\<exists>t \<in> set ts. g t)"
  by (induction ts) auto

lemma responses_count:
  "length (filter (\<lambda>(k, v, s). \<not> s) (map (\<lambda>t. (t, f t, g t)) ts)) = length ts
   \<longleftrightarrow> (\<forall>t \<in> set ts. \<not> g t)"
proof -
  have "length (filter (\<lambda>(k, v, s). \<not> s) (map (\<lambda>t. (t, f t, g t)) ts))
      = length (filter (\<lambda>t. \<not> g t) ts)"
    by (induction ts) auto
  moreover have "length (filter (\<lambda>t. \<not> g t) ts) = length ts \<longleftrightarrow> (\<forall>t \<in> set ts. \<not> g t)"
    by (metis filter_True length_filter_less less_irrefl_nat filter_id_conv)
  ultimately show ?thesis by simp
qed

lemma responses_results:
  assumes "distinct ts"
  shows "fold (\<lambda>(k, v, s) rs. map_set k v rs) (map (\<lambda>t. (t, f t, g t)) ts) []
         = map (\<lambda>t. (t, f t)) ts"
proof -
  have "distinct (map fst (map (\<lambda>t. (t, f t, g t)) ts))"
    using assms by (simp add: comp_def)
  then have "fold (\<lambda>(k, v, s) rs. map_set k v rs) (map (\<lambda>t. (t, f t, g t)) ts) []
      = [] @ map (\<lambda>(k, v, s). (k, v)) (map (\<lambda>t. (t, f t, g t)) ts)"
    by (intro fold_map_set_fresh) simp_all
  then show ?thesis by (simp add: comp_def)
qed

lemma queryAllRecords_on_miss:
  assumes miss: "validateDomain d \<longrightarrow> fst (getFromCache now (toLowerCase d @ '':ALL'') e) = None"
  shows
   "(isl (fst (queryAllRecords now now' stamp net d pref e)) \<longleftrightarrow>
       (\<forall>t \<in> set (map fst recordTypes). isl (snd (queryDNS e (net t) d t pref)))) \<and>
    (\<not> (\<forall>t \<in> set (map fst recordTypes). isl (snd (queryDNS e (net t) d t pref))) \<longrightarrow>
       fst (queryAllRecords now now' stamp net d pref e) =
         Inr (map (\<lambda>t. (t, type_entry e stamp net d pref t)) (map fst recordTypes), False)) \<and>
    (\<forall>t \<in> set (map fst recordTypes). \<forall>m.
       snd (queryDNS e (net t) d t pref) = Inl m \<longrightarrow>
         records (type_entry e stamp net d pref t) = [] \<and>
         error (type_entry e stamp net d pref t) = Some (categorizeError m) \<and>
         retryable (type_entry e stamp net d pref t) = Some (isRetryableError m)) \<and>
    distinct (map fst recordTypes) \<and> length (map fst recordTypes) = 9"
proof (cases "validateDomain d")
  case False
  then show ?thesis
    using types_distinct
    by (simp add: queryAllRecords_def invalid_all_fail type_entry_def failed_result_def)
next
  case True
  let ?key = "toLowerCase d @ '':ALL''"
  define types where "types = map fst recordTypes"
  have dt: "distinct types" and lt: "length types = 9"
    using types_distinct by (simp_all add: types_def)
  obtain e1 where g: "getFromCache now ?key e = (None, e1)"
    using miss True by (cases "getFromCache now ?key e") auto
  let ?e2 = "e1\<lparr>misses := misses e1 + 1\<rparr>"
  have e1: "e1 = snd (getFromCache now ?key e)" using g by simp
  have cfg: "queryDNS ?e2 n d t pref = queryDNS e n d t pref" for n t
    by (rule queryDNS_config) (simp_all add: e1 getFromCache_config)
  let ?q = "\<lambda>t. snd (queryDNS e (net t) d t pref)"
  let ?resp = "\<lambda>recType. case ?q recType of
                              Inr result \<Rightarrow> (recType, result, True)
                            | Inl m \<Rightarrow> (recType, failed_result d recType (stamp recType) m, False)"
  let ?resp' = "\<lambda>t. (t, type_entry e stamp net d pref t, \<not> isl (?q t))"
  have resp: "?resp = ?resp'"
  proof
    fix t show "?resp t = ?resp' t" by (cases "?q t") (simp_all add: type_entry_def)
  qed
  have responses: "concat (map (map ?resp) (batches types)) = map ?resp' types"
    by (simp only: map_concat [symmetric] concat_batches resp)
  note any = responses_any [of "type_entry e stamp net d pref" "\<lambda>t. \<not> isl (?q t)" types]
  note count = responses_count [of "type_entry e stamp net d pref" "\<lambda>t. \<not> isl (?q t)" types]
  note results = responses_results [OF dt, of "type_entry e stamp net d pref" "\<lambda>t. \<not> isl (?q t)"]
  have out: "fst (queryAllRecords now now' stamp net d pref e) =
     (if \<forall>t \<in> set types. isl (?q t)
      then Inl (''Failed to retrieve any DNS records for '' @ d @ ''. All '' @
            show_nat (length (filter (\<lambda>(recType, result, success). \<not> success) (map ?resp' types))) @
            '' record type queries failed.'')
      else Inr (map (\<lambda>t. (t, type_entry e stamp net d pref t)) types, False))"
    using any count
    by (simp only: queryAllRecords_def Let_def g True not_True_eq_False if_False prod.case
          option.case cfg types_def [symmetric] responses results)
       auto
  have entries: "records (type_entry e stamp net d pref t) = [] \<and>
         error (type_entry e stamp net d pref t) = Some (categorizeError m) \<and>
         retryable (type_entry e stamp net d pref t) = Some (isRetryableError m)"
    if "?q t = Inl m" for t m
    using that by (simp add: type_entry_def failed_result_def)
  show ?thesis
    unfolding types_def [symmetric]
    using out entries dt lt by auto
qed

lemma queryAllRecords_on_hit:
  assumes "validateDomain d"
    and "fst (getFromCache now (toLowerCase d @ '':ALL'') e) = Some c"
  shows "fst (queryAllRecords now now' stamp net d pref e) = Inr (c, True)"
  using assms
  by (cases "getFromCache now (toLowerCase d @ '':ALL'') e")
    (simp add: queryAllRecords_def Let_def)

text \<open>
  The queries that throw. When the domain is invalid or the cache has no live entry for
  it, \<open>queryAllRecords\<close> raises an error exactly when \<open>queryDNS\<close> throws for every
  one of the 9 record types. Otherwise it returns, not marked as cached, one entry per
  record type, in the order of \<open>recordTypes\<close>: the result of \<open>queryDNS\<close> for the type,
  or, for a type whose \<open>queryDNS\<close> threw, an entry with no records, the categorized
  message as \<open>error\<close>, and the \<open>retryable\<close> flag of the message. When the cache has a
  live entry for a valid domain, no query is made and that entry is returned, marked as
  cached.
\<close>

lemma queryAllRecords_thrown_failures:
  "((validateDomain d \<longrightarrow> fst (getFromCache now (toLowerCase d @ '':ALL'') e) = None) \<longrightarrow>
      (isl (fst (queryAllRecords now now' stamp net d pref e)) \<longleftrightarrow>
         (\<forall>t \<in> set (map fst recordTypes). isl (snd (queryDNS e (net t) d t pref)))) \<and>
      (\<not> (\<forall>t \<in> set (map fst recordTypes). isl (snd (queryDNS e (net t) d t pref))) \<longrightarrow>
         fst (queryAllRecords now now' stamp net d pref e) =
           Inr (map (\<lambda>t. (t, type_entry e stamp net d pref t)) (map fst recordTypes), False))) \<and>
   (\<forall>t \<in> set (map fst recordTypes). \<forall>m.
      snd (queryDNS e (net t) d t pref) = Inl m \<longrightarrow>
        records (type_entry e stamp net d pref t) = [] \<and>
        error (type_entry e stamp net d pref t) = Some (categorizeError m) \<and>
        retryable (type_entry e stamp net d pref t) = Some (isRetryableError m)) \<and>
   distinct (map fst recordTypes) \<and> length (map fst recordTypes) = 9 \<and>
   (validateDomain d \<and> fst (getFromCache now (toLowerCase d @ '':ALL'') e) = Some c \<longrightarrow>
      fst (queryAllRecords now now' stamp net d pref e) = Inr (c, True))"
proof (intro conjI impI ballI allI)
  assume miss: "validateDomain d \<longrightarrow>
      fst (getFromCache now (toLowerCase d @ '':ALL'') e) = None"
  note m = queryAllRecords_on_miss [OF miss, of now' stamp net pref]
  from m show "isl (fst (queryAllRecords now now' stamp net d pref e)) \<longleftrightarrow>
      (\<forall>t \<in> set (map fst recordTypes). isl (snd (queryDNS e (net t) d t pref)))"
    by (rule conjunct1)
  assume "\<not> (\<forall>t \<in> set (map fst recordTypes). isl (snd (queryDNS e (net t) d t pref)))"
  with m show "fst (queryAllRecords now now' stamp net d pref e) =
      Inr (map (\<lambda>t. (t, type_entry e stamp net d pref t)) (map fst recordTypes), False)"
    by blast
next
  fix t m
  assume "snd (queryDNS e (net t) d t pref) = Inl m"
  then show "records (type_entry e stamp net d pref t) = []"
    and "error (type_entry e stamp net d pref t) = Some (categorizeError m)"
    and "retryable (type_entry e stamp net d pref t) = Some (isRetryableError m)"
    by (simp_all add: type_entry_def failed_result_def)
next
  show "distinct (map fst recordTypes)" and "length (map fst recordTypes) = 9"
    using types_distinct by simp_all
next
  assume "validateDomain d \<and> fst (getFromCache now (toLowerCase d @ '':ALL'') e) = Some c"
  then show "fst (queryAllRecords now now' stamp net d pref e) = Inr (c, True)"
    by (simp add: queryAllRecords_on_hit)
qed

lemma example_all_net_A:
  "snd (queryDNS DNSQueryEngine (example_all_net ''A'') ''example.com'' ''A'' ''cloudflare'')
     = Inr example_result"
  by (simp add: queryDNS_def example_valid recordTypes_def providerOrder_def
      fallbackOrder_def tryProviders.simps dohProviders_def queryWithRetry_def
      queryWithRetry_from.simps performQuery_def DNSQueryEngine_def example_all_net_def)

lemma queryAllRecords_example:
  "fst (queryAllRecords 0 0 (\<lambda>t. ''2024-01-01T00:00:00.000Z'') example_all_net
          ''example.com'' ''cloudflare'' DNSQueryEngine) =
     Inr (map (\<lambda>t. (t, type_entry DNSQueryEngine (\<lambda>t. ''2024-01-01T00:00:00.000Z'')
                        example_all_net ''example.com'' ''cloudflare'' t))
            (map fst recordTypes), False)"
proof -
  have miss: "validateDomain ''example.com'' \<longrightarrow>
      fst (getFromCache 0 (toLowerCase ''example.com'' @ '':ALL'') DNSQueryEngine) = None"
    by (simp add: getFromCache_def DNSQueryEngine_def)
  have "''A'' \<in> set (map fst recordTypes)" by (simp add: recordTypes_def)
  with example_all_net_A
  have some: "\<not> (\<forall>t \<in> set (map fst recordTypes).
      isl (snd (queryDNS DNSQueryEngine (example_all_net t) ''example.com'' t ''cloudflare'')))"
    by (metis sum.disc(2))
  from queryAllRecords_thrown_failures
    [where d = "''example.com''" and now = 0 and now' = 0 and e = DNSQueryEngine
       and stamp = "\<lambda>t. ''2024-01-01T00:00:00.000Z''" and net = example_all_net
       and pref = "''cloudflare''"]
    miss some
  show ?thesis by blast
qed

text \<open>
  The entry of a record type whose requests all time out: the category of the message
  and the flag.
\<close>

lemma example_all_net_MX:
  "type_entry DNSQueryEngine (\<lambda>t. ''2024-01-01T00:00:00.000Z'') example_all_net
      ''example.com'' ''cloudflare'' ''MX'' =
     \<lparr>domain = ''example.com'', recordType = ''MX'', records = [],
      timestamp = ''2024-01-01T00:00:00.000Z'', source = ''failed'',
      error = Some ''Request timed out - DNS server may be slow or unreachable'',
      originalError =
        Some ''All DNS providers failed. Last error: DNS query timeout after 10000ms'',
      failedProviders = Some [''cloudflare'', ''google'', ''quad9''],
      retryable = Some True\<rparr>"
proof -
  have sn: "show_nat 10000 = ''10000''" by (simp add: show_nat.simps)
  have q: "queryWithRetry DNSQueryEngine (example_all_net ''MX'' p) p =
     ([Attempt p 1, Sleep 1000, Attempt p 2, Sleep 2000, Attempt p 3],
      Inl (Error ''DNS query timeout after 10000ms''))" for p
    by (simp add: queryWithRetry_def queryWithRetry_from.simps performQuery_def sn
      DNSQueryEngine_def example_all_net_def str_includes_def sublist_code prefix_code)
  have "snd (queryDNS DNSQueryEngine (example_all_net ''MX'') ''example.com'' ''MX'' ''cloudflare'')
     = Inl ''All DNS providers failed. Last error: DNS query timeout after 10000ms''"
    by (simp add: queryDNS_def example_valid recordTypes_def providerOrder_def
      fallbackOrder_def tryProviders.simps dohProviders_def q)
  then show ?thesis
    by (simp add: type_entry_def failed_result_def fallbackOrder_def categorizeError_def
        isRetryableError_def str_includes_def sublist_code prefix_code)
qed

text \<open>
  The queries that are answered with a DNS error status. \<open>queryDNS\<close> returns the first
  answer of a provider as it is parsed.
\<close>

lemma nxdomain_valid: "validateDomain ''no-such-domain.example''"
  by (simp add: validateDomain_def stripTrailingDot_def domainRegex_test_def
      match_label_def alnum_def alnum_hyphen_def)

lemma nxdomain_answer:
  "nxdomain_net t ''cloudflare'' n = Response_ok (nxdomain_result t)"
  by (simp add: nxdomain_net_def parseDoHResponse_def statusMessages_def nxdomain_result_def)

lemma queryDNS_first_answer:
  assumes "validateDomain d" and "map_of recordTypes t \<noteq> None" and "1 \<le> maxRetries e"
    and "map_of dohProviders p \<noteq> None" and "net p 1 = Response_ok r"
  shows "queryDNS e net d t p = ([Attempt p 1], Inr r)"
proof -
  have "queryWithRetry e (net p) p = ([Attempt p 1], Inr r)"
    unfolding queryWithRetry_def
    by (subst queryWithRetry_from.simps) (use assms(3,5) in \<open>simp add: performQuery_def\<close>)
  with assms(1,2,4) show ?thesis
    by (simp add: queryDNS_def providerOrder_def tryProviders.simps(2) del: not_None_eq)
qed

lemma nxdomain_entry:
  assumes "t \<in> set (map fst recordTypes)"
  shows "type_entry DNSQueryEngine stamp nxdomain_net ''no-such-domain.example''
           ''cloudflare'' t = nxdomain_result t"
    and "\<not> isl (snd (queryDNS DNSQueryEngine (nxdomain_net t) ''no-such-domain.example'' t
           ''cloudflare''))"
proof -
  from assms have t: "map_of recordTypes t \<noteq> None"
    by (simp add: recordTypes_def) auto
  have "queryDNS DNSQueryEngine (nxdomain_net t) ''no-such-domain.example'' t ''cloudflare''
      = ([Attempt ''cloudflare'' 1], Inr (nxdomain_result t))"
    by (rule queryDNS_first_answer [OF nxdomain_valid t])
      (simp_all add: DNSQueryEngine_def dohProviders_def nxdomain_answer)
  then show "type_entry DNSQueryEngine stamp nxdomain_net ''no-such-domain.example''
           ''cloudflare'' t = nxdomain_result t"
    and "\<not> isl (snd (queryDNS DNSQueryEngine (nxdomain_net t) ''no-such-domain.example'' t
           ''cloudflare''))"
    by (simp_all add: type_entry_def)
qed

text \<open>
  C1. On a new engine, with every one of the 9 queries answered by DNS status 3
  (\<open>NXDOMAIN\<close>), so that each of them fails with no records and an error,
  \<open>queryAllRecords\<close> does not raise: it returns the 9 results as \<open>parseDoHResponse\<close>
  made them. The entries carry the status message itself, not its category (which
  \<open>categorizeError\<close> would give as \<open>Domain not found - verify the domain name is
  correct\<close>), and no \<open>retryable\<close> flag. Only a query that throws counts as failed in
  \<open>queryAllRecords\<close>, and \<open>parseDoHResponse\<close> returns the status errors that
  \<open>categorizeError\<close> and \<open>isRetryableError\<close> have cases for.
\<close>

theorem queryAllRecords_nxdomain:
  "fst (queryAllRecords 0 0 (\<lambda>t. ''2024-01-01T00:00:00.000Z'') nxdomain_net
          ''no-such-domain.example'' ''cloudflare'' DNSQueryEngine) =
     Inr (map (\<lambda>t. (t, nxdomain_result t))
            [''A'', ''NS'', ''CNAME'', ''SOA'', ''PTR'', ''MX'', ''TXT'', ''AAAA'', ''SRV''],
          False) \<and>
   records (nxdomain_result ''A'') = [] \<and>
   error (nxdomain_result ''A'') = Some ''Name Error (NXDOMAIN)'' \<and>
   retryable (nxdomain_result ''A'') = None \<and>
   categorizeError ''Name Error (NXDOMAIN)'' =
     ''Domain not found - verify the domain name is correct''"
proof -
  let ?stamp = "\<lambda>t::string. ''2024-01-01T00:00:00.000Z''"
  let ?d = "''no-such-domain.example''"
  have miss: "validateDomain ?d \<longrightarrow>
      fst (getFromCache 0 (toLowerCase ?d @ '':ALL'') DNSQueryEngine) = None"
    by (simp add: getFromCache_def DNSQueryEngine_def)
  have a: "''A'' \<in> set (map fst recordTypes)" by (simp add: recordTypes_def)
  from a nxdomain_entry(2) [OF a]
  have some: "\<not> (\<forall>t \<in> set (map fst recordTypes).
      isl (snd (queryDNS DNSQueryEngine (nxdomain_net t) ?d t ''cloudflare'')))"
    by blast
  from queryAllRecords_on_miss [OF miss, of 0 ?stamp nxdomain_net "''cloudflare''"] some
  have "fst (queryAllRecords 0 0 ?stamp nxdomain_net ?d ''cloudflare'' DNSQueryEngine) =
      Inr (map (\<lambda>t. (t, type_entry DNSQueryEngine ?stamp nxdomain_net ?d ''cloudflare'' t))
             (map fst recordTypes), False)"
    by blast
  also have "map (\<lambda>t. (t, type_entry DNSQueryEngine ?stamp nxdomain_net ?d ''cloudflare'' t))
             (map fst recordTypes) = map (\<lambda>t. (t, nxdomain_result t)) (map fst recordTypes)"
    by (rule map_cong [OF refl]) (simp only: nxdomain_entry(1))
  also have "map fst recordTypes =
      [''A'', ''NS'', ''CNAME'', ''SOA'', ''PTR'', ''MX'', ''TXT'', ''AAAA'', ''SRV'']"
    by (simp add: recordTypes_def)
  finally have out: "fst (queryAllRecords 0 0 ?stamp nxdomain_net ?d ''cloudflare''
      DNSQueryEngine) = Inr (map (\<lambda>t. (t, nxdomain_result t))
            [''A'', ''NS'', ''CNAME'', ''SOA'', ''PTR'', ''MX'', ''TXT'', ''AAAA'', ''SRV''],
          False)" .
  have cat: "categorizeError ''Name Error (NXDOMAIN)'' =
     ''Domain not found - verify the domain name is correct''"
    by (simp add: categorizeError_def str_includes_def sublist_code prefix_code)
  show ?thesis
    by (intro conjI) (rule out, simp_all add: nxdomain_result_def cat)
qed

section \<open>Properties of the error detection engine\<close>

subsection \<open>CNAME cycles\<close>

lemma hop_None_mono: "hop recs target d = None \<Longrightarrow> d \<le> d' \<Longrightarrow> hop recs target d' = None"
proof (induction d' )
  case 0
  then show ?case by simp
next
  case (Suc d')
  then show ?case by (cases "d = Suc d'") auto
qed

lemma revisit_at_iff:
  "hop recs target d = Some cur \<Longrightarrow>
   revisit_at recs rn target d \<longleftrightarrow> cur \<in> insert rn {t. \<exists>j<d. hop recs target j = Some t}"
  by (auto simp: revisit_at_def list_ex_iff)

lemma follow_chain_revisit:
  assumes "hop recs target d = Some cur"
    and "set chain = insert rn {t. \<exists>j<d. hop recs target j = Some t}"
  shows "follow_chain recs rn d chain cur =
     (if \<exists>d'. d \<le> d' \<and> d' < 10 \<and> revisit_at recs rn target d'
      then [circular_chain_issue rn] else [])"
  using assms
proof (induction recs rn d chain cur rule: follow_chain.induct)
  case (1 recs rn d chain cur)
  show ?case
  proof (cases "d < 10")
    case False
    then show ?thesis by (simp add: follow_chain.simps [of recs rn d chain cur])
  next
    case lt: True
    note rv = revisit_at_iff [OF "1.prems"(1), of rn]
    show ?thesis
    proof (cases "cur \<in> set chain")
      case True
      with rv "1.prems"(2) have "revisit_at recs rn target d" by simp
      with lt have "\<exists>d'. d \<le> d' \<and> d' < 10 \<and> revisit_at recs rn target d'" by blast
      with lt True show ?thesis by (simp add: follow_chain.simps [of recs rn d chain cur])
    next
      case notin: False
      with rv "1.prems"(2) have nrv: "\<not> revisit_at recs rn target d" by simp
      show ?thesis
      proof (cases "find_cname recs cur")
        case None
        with "1.prems"(1) have "hop recs target (Suc d) = None" by simp
        then have "hop recs target d' = None" if "Suc d \<le> d'" for d'
          using that hop_None_mono by blast
        then have "\<not> revisit_at recs rn target d'" if "Suc d \<le> d'" for d'
          using that by (simp add: revisit_at_def)
        with nrv have "\<not> (\<exists>d'. d \<le> d' \<and> d' < 10 \<and> revisit_at recs rn target d')"
          by (metis Suc_leI le_neq_implies_less)
        with lt notin None show ?thesis
          by (simp add: follow_chain.simps [of recs rn d chain cur])
      next
        case (Some nxt)
        with "1.prems"(1) have h: "hop recs target (d + 1) = Some (toLowerCase (data nxt))"
          by simp
        have s: "set (chain @ [cur]) = insert rn {t. \<exists>j<d + 1. hop recs target j = Some t}"
          using "1.prems" by (auto simp: less_Suc_eq)
        have "(\<exists>d'. d \<le> d' \<and> d' < 10 \<and> revisit_at recs rn target d') \<longleftrightarrow>
              (\<exists>d'. d + 1 \<le> d' \<and> d' < 10 \<and> revisit_at recs rn target d')"
          using nrv by (metis Suc_eq_plus1 Suc_leI le_neq_implies_less Suc_leD)
        with "1.IH" [OF lt notin Some h s] lt notin Some show ?thesis
          by (simp add: follow_chain.simps [of recs rn d chain cur])
      qed
    qed
  qed
qed

lemma revisits_iff: "revisits recs rn target \<longleftrightarrow> (\<exists>d'<10. revisit_at recs rn target d')"
  by (auto simp: revisits_def list_ex_iff)

lemma follow_chain_start:
  "follow_chain recs rn 0 [rn] target =
     (if revisits recs rn target then [circular_chain_issue rn] else [])"
  using follow_chain_revisit [of recs target 0 target "[rn]" rn]
  by (simp add: revisits_iff)

lemma lower_examples:
  "toLowerCase ''a.example.com'' = ''a.example.com''"
  "toLowerCase ''b.example.com'' = ''b.example.com''"
  "toLowerCase ''c.example.com'' = ''c.example.com''"
  by code_simp+

lemma cycle_example:
  "detectCircularCNAME
     (cname_set [cname_record ''a.example.com'' ''b.example.com'',
                 cname_record ''b.example.com'' ''a.example.com'']) ''example.com'' =
   [circular_chain_issue ''a.example.com'', circular_chain_issue ''b.example.com'']"
  by (simp add: detectCircularCNAME_def has_records_def records_of_def cname_set_def
      cname_record_def cname_record_issues_def lower_examples follow_chain.simps find_cname_def)

lemma chain_example:
  "detectCircularCNAME
     (cname_set [cname_record ''a.example.com'' ''b.example.com'',
                 cname_record ''b.example.com'' ''c.example.com'']) ''example.com'' = []"
  by (simp add: detectCircularCNAME_def has_records_def records_of_def cname_set_def
      cname_record_def cname_record_issues_def lower_examples follow_chain.simps find_cname_def)

text \<open>
  C7. \<open>detectCircularCNAME\<close> returns, for the CNAME records in order, the issues of
  each. A record whose name and target are equal up to case yields one critical issue.
  Any other record yields one critical issue when, following its target through the first
  record of each name, within 10 hops a target is the record's own name or an earlier
  target of this walk, and no issue otherwise, so none when the chain ends. The set
  \<open>a.example.com \<rightarrow> b.example.com\<close>, \<open>b.example.com \<rightarrow> a.example.com\<close> yields a critical
  issue; the set \<open>a \<rightarrow> b\<close>, \<open>b \<rightarrow> c\<close> yields none.
\<close>

theorem detectCircularCNAME_cycles:
  "detectCircularCNAME rs dn =
     concat (map (cname_record_issues (records_of rs ''CNAME'')) (records_of rs ''CNAME'')) \<and>
   (toLowerCase (name r) = toLowerCase (data r) \<longrightarrow>
      cname_record_issues recs r = [self_reference_issue (toLowerCase (name r))]) \<and>
   (toLowerCase (name r) \<noteq> toLowerCase (data r) \<longrightarrow>
      cname_record_issues recs r =
        (if revisits recs (toLowerCase (name r)) (toLowerCase (data r))
         then [circular_chain_issue (toLowerCase (name r))] else [])) \<and>
   severity (self_reference_issue n) = CRITICAL \<and>
   severity (circular_chain_issue n) = CRITICAL \<and>
   list_ex (\<lambda>i. severity i = CRITICAL)
     (detectCircularCNAME
        (cname_set [cname_record ''a.example.com'' ''b.example.com'',
                    cname_record ''b.example.com'' ''a.example.com'']) ''example.com'') \<and>
   detectCircularCNAME
     (cname_set [cname_record ''a.example.com'' ''b.example.com'',
                 cname_record ''b.example.com'' ''c.example.com'']) ''example.com'' = []"
proof (intro conjI impI)
  show "detectCircularCNAME rs dn =
     concat (map (cname_record_issues (records_of rs ''CNAME'')) (records_of rs ''CNAME''))"
    by (auto simp: detectCircularCNAME_def has_records_def records_of_def split: option.splits)
  show "severity (self_reference_issue n) = CRITICAL"
    by (simp add: self_reference_issue_def)
  show "severity (circular_chain_issue n) = CRITICAL"
    by (simp add: circular_chain_issue_def)
  show "list_ex (\<lambda>i. severity i = CRITICAL)
     (detectCircularCNAME
        (cname_set [cname_record ''a.example.com'' ''b.example.com'',
                    cname_record ''b.example.com'' ''a.example.com'']) ''example.com'')"
    by (simp add: cycle_example circular_chain_issue_def)
  show "detectCircularCNAME
     (cname_set [cname_record ''a.example.com'' ''b.example.com'',
                 cname_record ''b.example.com'' ''c.example.com'']) ''example.com'' = []"
    by (rule chain_example)
next
  assume "toLowerCase (name r) = toLowerCase (data r)"
  then show "cname_record_issues recs r = [self_reference_issue (toLowerCase (name r))]"
    by (simp add: cname_record_issues_def)
next
  assume "toLowerCase (name r) \<noteq> toLowerCase (data r)"
  then show "cname_record_issues recs r =
        (if revisits recs (toLowerCase (name r)) (toLowerCase (data r))
         then [circular_chain_issue (toLowerCase (name r))] else [])"
    by (simp add: cname_record_issues_def follow_chain_start)
qed

lemma lower_www:
  "toLowerCase ''WWW.example.com'' = ''www.example.com''"
  "toLowerCase ''www.EXAMPLE.com'' = ''www.example.com''"
  by code_simp+

theorem detectCircularCNAME_cycles_witness:
  "cname_record_issues [cname_record ''WWW.example.com'' ''www.EXAMPLE.com'']
     (cname_record ''WWW.example.com'' ''www.EXAMPLE.com'')
     = [self_reference_issue ''www.example.com''] \<and>
   revisits [cname_record ''a.example.com'' ''b.example.com'',
             cname_record ''b.example.com'' ''a.example.com'']
     ''a.example.com'' ''b.example.com'' \<and>
   cname_record_issues [cname_record ''a.example.com'' ''b.example.com'',
                        cname_record ''b.example.com'' ''a.example.com'']
     (cname_record ''a.example.com'' ''b.example.com'')
     = [circular_chain_issue ''a.example.com'']"
proof -
  let ?w = "cname_record ''WWW.example.com'' ''www.EXAMPLE.com''"
  let ?a = "cname_record ''a.example.com'' ''b.example.com''"
  let ?b = "cname_record ''b.example.com'' ''a.example.com''"
  have w: "toLowerCase (name ?w) = toLowerCase (data ?w)" "toLowerCase (name ?w) = ''www.example.com''"
    by (simp_all add: cname_record_def lower_www)
  have a: "toLowerCase (name ?a) \<noteq> toLowerCase (data ?a)" "toLowerCase (name ?a) = ''a.example.com''"
    "toLowerCase (data ?a) = ''b.example.com''"
    by (simp_all add: cname_record_def lower_examples)
  have rv: "revisits [?a, ?b] ''a.example.com'' ''b.example.com''"
    by (simp add: revisits_def revisit_at_def find_cname_def cname_record_def lower_examples
        upt_conv_Cons)
  from detectCircularCNAME_cycles [of _ _ ?w "[?w]"] w
  have 1: "cname_record_issues [?w] ?w = [self_reference_issue ''www.example.com'']" by simp
  from detectCircularCNAME_cycles [of _ _ ?a "[?a, ?b]"] a rv
  have 2: "cname_record_issues [?a, ?b] ?a = [circular_chain_issue ''a.example.com'']" by simp
  from 1 rv 2 show ?thesis by simp
qed

subsection \<open>MX records\<close>

lemma mx_step_eq:
  "mx_step r (errs, mx_priorities earlier) =
     (errs @ mx_record_issues earlier r, mx_priorities (earlier @ [r]))"
  by (simp add: mx_step_def mx_record_issues_def mx_priorities_def mx_pieces_def Let_def)

lemma fold_mx_step:
  "fold mx_step recs (errs, mx_priorities earlier) =
     (errs @ mx_issues_from earlier recs, mx_priorities (earlier @ recs))"
proof (induction recs arbitrary: errs earlier)
  case Nil
  show ?case by simp
next
  case (Cons r recs)
  show ?case by (simp add: mx_step_eq Cons.IH)
qed

lemma mx_issues_from_index:
  "mx_issues_from earlier recs =
     concat (map (\<lambda>i. mx_record_issues (earlier @ take i recs) (recs ! i)) [0..<length recs])"
proof (induction recs arbitrary: earlier)
  case Nil
  show ?case by simp
next
  case (Cons r recs)
  have "[0..<length (r # recs)] = 0 # map Suc [0..<length recs]"
    by (simp only: map_Suc_upt length_Cons) (simp add: upt_rec [of 0 "Suc (length recs)"] del: upt_Suc)
  then show ?case by (simp add: Cons.IH comp_def del: upt_Suc)
qed

lemma validateMXRecords_eq:
  "validateMXRecords rs =
     concat (map (\<lambda>i. mx_record_issues (take i (records_of rs ''MX'')) (records_of rs ''MX'' ! i))
               [0..<length (records_of rs ''MX'')])"
proof (cases "has_records rs ''MX''")
  case True
  have "mx_priorities [] = []" by (simp add: mx_priorities_def)
  with fold_mx_step [of "records_of rs ''MX''" "[]" "[]"] True show ?thesis
    by (simp add: validateMXRecords_def mx_issues_from_index)
next
  case False
  then have "records_of rs ''MX'' = []"
    by (simp add: has_records_def records_of_def split: option.splits)
  with False show ?thesis by (simp add: validateMXRecords_def)
qed

lemma mx_severities:
  "severity (mx_format_issue r) = CRITICAL" "itype (mx_format_issue r) = CONFIGURATION_ERROR"
  "severity (mx_priority_issue r f) = CRITICAL" "itype (mx_priority_issue r f) = CONFIGURATION_ERROR"
  "severity (mx_duplicate_issue r p) = WARNING" "itype (mx_duplicate_issue r p) = CONFIGURATION_ERROR"
  by (simp_all add: mx_format_issue_def mx_priority_issue_def mx_duplicate_issue_def)

lemma critical_mx_record_issues:
  "filter (\<lambda>i. severity i = CRITICAL) (mx_record_issues earlier r) = mx_critical r"
  by (simp add: mx_record_issues_def mx_critical_def mx_severities)

lemma validateMXRecords_critical:
  "filter (\<lambda>i. severity i = CRITICAL) (validateMXRecords rs) =
     concat (map mx_critical (records_of rs ''MX''))"
proof -
  let ?recs = "records_of rs ''MX''"
  have "filter (\<lambda>i. severity i = CRITICAL) (validateMXRecords rs) =
      concat (map (\<lambda>i. mx_critical (?recs ! i)) [0..<length ?recs])"
    by (simp add: validateMXRecords_eq filter_concat comp_def critical_mx_record_issues)
  also have "map (\<lambda>i. mx_critical (?recs ! i)) [0..<length ?recs] = map mx_critical ?recs"
    by (rule nth_equalityI) simp_all
  finally show ?thesis .
qed

lemma parse10: "parseInt ''10'' = Num 10" by code_simp



















text \<open>
  What the properties above leave open: the first piece is read by \<open>parseInt\<close>, which
  takes a leading number and ignores what follows it, and the second piece is not looked
  at. A first piece \<open>10abc\<close> and an empty second piece give no issue.
\<close>

lemma parse10abc: "parseInt ''10abc'' = Num 10" by code_simp

lemma validateMXRecords_lenient:
  "validateMXRecords (mx_set [mx_record ''10abc mail.example.com'']) = [] \<and>
   validateMXRecords (mx_set [mx_record ''10 '']) = []"
  by (simp add: validateMXRecords_def has_records_def records_of_def
      mx_set_def mx_step_def mx_record_def Let_def parse10 parse10abc invalid_priority_def)

subsection \<open>SPF records\<close>

lemma validateSPFRecord_rules:
  "(\<not> str_includes (data r) ''all'' \<longrightarrow>
      list_ex (\<lambda>i. severity i = WARNING \<and> message i = ''SPF record lacks proper termination'')
        (validateSPFRecord r)) \<and>
   (lookupMechanisms (data r) > 10 \<longrightarrow>
      list_ex (\<lambda>i. severity i = CRITICAL \<and> itype i = CONFIGURATION_ERROR) (validateSPFRecord r))"
proof -
  have sub: "str_includes s (c # ''all'') \<Longrightarrow> str_includes s ''all''" for s c
    unfolding str_includes_def
    by (metis sublist_Cons_right sublist_order.order_trans sublist_order.order_refl)
  show ?thesis
    by (auto simp: validateSPFRecord_def Let_def dest: sub)
qed

lemma validateSecurityRecords_spf:
  assumes "has_records rs ''TXT''"
  shows "(\<forall>r \<in> set (spfRecords (records_of rs ''TXT'')).
            set (validateSPFRecord r) \<subseteq> set (validateSecurityRecords rs dn)) \<and>
         (length (spfRecords (records_of rs ''TXT'')) > 1 \<longrightarrow>
            list_ex (\<lambda>i. severity i = CRITICAL \<and> itype i = CONFIGURATION_ERROR \<and>
                          message i = ''Multiple SPF records found ('' @
                             show_nat (length (spfRecords (records_of rs ''TXT''))) @ '')'')
              (validateSecurityRecords rs dn))"
  using assms
  by (auto simp: validateSecurityRecords_def Let_def)

lemma wallet_lower:
  "toLowerCase ''v=spf1 include:_spf.wallet.example.com'' = ''v=spf1 include:_spf.wallet.example.com''"
  by code_simp

lemma wallet_no_issue:
  "validateSPFRecord (txt_record ''v=spf1 include:_spf.wallet.example.com'') = []"
  by code_simp

lemma wallet_not_terminated:
  "\<not> spec_spf_terminated ''v=spf1 include:_spf.wallet.example.com''"
  by (simp add: spec_spf_terminated_def)

lemma wallet_bears_spf:
  "spfRecords [txt_record ''v=spf1 include:_spf.wallet.example.com''] =
     [txt_record ''v=spf1 include:_spf.wallet.example.com'']"
  by (simp add: spfRecords_def txt_record_def wallet_lower str_includes_def sublist_code prefix_code)

lemma google_warning:
  "map message (validateSPFRecord (txt_record ''v=spf1 include:_spf.google.com'')) =
     [''SPF record lacks proper termination'']"
  by code_simp

text \<open>
  C9, where the code departs from it. The TXT record
  \<open>v=spf1 include:_spf.wallet.example.com\<close> bears an SPF policy and has no \<open>all\<close>
  mechanism, and \<open>validateSPFRecord\<close> emits nothing for it: the test for a terminator
  is a search for \<open>all\<close> anywhere in the data, which the \<open>wallet\<close> of the host name
  satisfies. For \<open>v=spf1 include:_spf.google.com\<close> the warning is emitted.
\<close>

theorem validateSPFRecord_missing_terminator:
  "spfRecords [txt_record ''v=spf1 include:_spf.wallet.example.com''] =
     [txt_record ''v=spf1 include:_spf.wallet.example.com''] \<and>
   \<not> spec_spf_terminated ''v=spf1 include:_spf.wallet.example.com'' \<and>
   validateSPFRecord (txt_record ''v=spf1 include:_spf.wallet.example.com'') = [] \<and>
   map message (validateSPFRecord (txt_record ''v=spf1 include:_spf.google.com'')) =
     [''SPF record lacks proper termination'']"
  using wallet_bears_spf wallet_not_terminated wallet_no_issue google_warning by simp

subsection \<open>The analysis report\<close>

lemma fold_categorize:
  "fold categorize is a =
     a\<lparr>errors := errors a @ filter (\<lambda>i. severity i = CRITICAL) is,
       warnings := warnings a @ filter (\<lambda>i. severity i = WARNING) is,
       info := info a @ filter (\<lambda>i. severity i = INFO) is,
       summary := (summary a)
         \<lparr>criticalErrors := criticalErrors (summary a) + length (filter (\<lambda>i. severity i = CRITICAL) is),
          warningCount := warningCount (summary a) + length (filter (\<lambda>i. severity i = WARNING) is),
          infoItems := infoItems (summary a) + length (filter (\<lambda>i. severity i = INFO) is)\<rparr>\<rparr>"
proof (induction "is" arbitrary: a)
  case Nil
  show ?case by simp
next
  case (Cons i "is")
  have "fold categorize (i # is) a = fold categorize is (categorize i a)" by simp
  also note Cons.IH [of "categorize i a"]
  finally have eq: "fold categorize (i # is) a = (categorize i a)
     \<lparr>errors := errors (categorize i a) @ filter (\<lambda>i. severity i = CRITICAL) is,
       warnings := warnings (categorize i a) @ filter (\<lambda>i. severity i = WARNING) is,
       info := info (categorize i a) @ filter (\<lambda>i. severity i = INFO) is,
       summary := (summary (categorize i a))
         \<lparr>criticalErrors := criticalErrors (summary (categorize i a)) +
            length (filter (\<lambda>i. severity i = CRITICAL) is),
          warningCount := warningCount (summary (categorize i a)) +
            length (filter (\<lambda>i. severity i = WARNING) is),
          infoItems := infoItems (summary (categorize i a)) +
            length (filter (\<lambda>i. severity i = INFO) is)\<rparr>\<rparr>" .
  show ?case
    unfolding eq by (cases "severity i") (simp_all add: categorize_def)
qed

lemma severity_partition:
  "length (filter (\<lambda>i. severity i = CRITICAL) is) + length (filter (\<lambda>i. severity i = WARNING) is)
     + length (filter (\<lambda>i. severity i = INFO) is) = length is"
proof (induction "is")
  case Nil
  show ?case by simp
next
  case (Cons i "is")
  then show ?case by (cases "severity i") simp_all
qed

text \<open>
  C10. In the report of \<open>analyzeConfiguration\<close> the sequences \<open>errors\<close>, \<open>warnings\<close>
  and \<open>info\<close> are the critical, the warning and the info issues of the five evaluators,
  each in the order emitted; \<open>summary.criticalErrors\<close>, \<open>summary.warnings\<close> and
  \<open>summary.infoItems\<close> are their lengths; and \<open>summary.totalIssues\<close> is the sum of the
  three, which is the number of issues emitted.
\<close>

theorem analyzeConfiguration_consistent:
  "errors (analyzeConfiguration stamp rs dn) =
     filter (\<lambda>i. severity i = CRITICAL) (allIssues rs dn) \<and>
   warnings (analyzeConfiguration stamp rs dn) =
     filter (\<lambda>i. severity i = WARNING) (allIssues rs dn) \<and>
   info (analyzeConfiguration stamp rs dn) =
     filter (\<lambda>i. severity i = INFO) (allIssues rs dn) \<and>
   criticalErrors (summary (analyzeConfiguration stamp rs dn)) =
     length (errors (analyzeConfiguration stamp rs dn)) \<and>
   warningCount (summary (analyzeConfiguration stamp rs dn)) =
     length (warnings (analyzeConfiguration stamp rs dn)) \<and>
   infoItems (summary (analyzeConfiguration stamp rs dn)) =
     length (info (analyzeConfiguration stamp rs dn)) \<and>
   totalIssues (summary (analyzeConfiguration stamp rs dn)) =
     length (errors (analyzeConfiguration stamp rs dn)) +
     length (warnings (analyzeConfiguration stamp rs dn)) +
     length (info (analyzeConfiguration stamp rs dn)) \<and>
   totalIssues (summary (analyzeConfiguration stamp rs dn)) = length (allIssues rs dn)"
  using severity_partition [of "allIssues rs dn"]
  by (simp add: analyzeConfiguration_def Let_def fold_categorize)

lemma empty_issues:
  "map severity (allIssues [] ''example.com'') = [CRITICAL, CRITICAL, WARNING, WARNING]"
  by (simp add: allIssues_def detectMissingRecords_def analyzeTTL_def detectCircularCNAME_def
      validateMXRecords_def validateSecurityRecords_def has_records_def Let_def)

theorem analyzeConfiguration_consistent_witness:
  "criticalErrors (summary (analyzeConfiguration ''2024-01-01T00:00:00.000Z'' [] ''example.com''))
     = 2 \<and>
   warningCount (summary (analyzeConfiguration ''2024-01-01T00:00:00.000Z'' [] ''example.com''))
     = 2 \<and>
   totalIssues (summary (analyzeConfiguration ''2024-01-01T00:00:00.000Z'' [] ''example.com''))
     = 4"
proof -
  have len: "length (filter (\<lambda>i. severity i = c) is) = length (filter (\<lambda>s. s = c) (map severity is))"
    for c and "is" :: "Issue list"
    by (induction "is") simp_all
  from analyzeConfiguration_consistent [of "''2024-01-01T00:00:00.000Z''" "[]" "''example.com''"]
  show ?thesis
    by (simp add: len empty_issues)
qed

end
